(* ===== verification/Iago_Prelude.thy ===== *)
theory Iago_Prelude
  imports Main
begin

text \<open>
  What every component of the development shares: the outcome type of Go calls that may
  also panic or never return, generic facts on lists, and the two contracts under which
  the concurrent parts are proved (\<open>step_system\<close>, \<open>live_system\<close>): a step relation
  with an invariant and a decreasing weight, and one whose only stuck states are final.
\<close>

named_theorems go_simps \<open>unfolding rules of the Go run-time layer\<close>
named_theorems inv_intros \<open>introduction rules for component invariants\<close>

section \<open>Outcomes of Go calls\<close>

text \<open>
  \<open>Ret v\<close> is a normal return, \<open>Fail e\<close> a return with a non-nil error, \<open>Panics\<close> a
  run-time panic and \<open>Diverges\<close> a call that never returns.
\<close>

datatype ('e, 'a) outcome = Ret 'a | Fail 'e | Panics | Diverges

definition of_loop :: "'a option \<Rightarrow> ('e, 'a) outcome" where
  "of_loop r = (case r of None \<Rightarrow> Diverges | Some v \<Rightarrow> Ret v)"

definition bind_outcome ::
  "('e, 'a) outcome \<Rightarrow> ('a \<Rightarrow> ('e, 'b) outcome) \<Rightarrow> ('e, 'b) outcome" where
  "bind_outcome r f =
     (case r of Ret v \<Rightarrow> f v | Fail e \<Rightarrow> Fail e | Panics \<Rightarrow> Panics | Diverges \<Rightarrow> Diverges)"

lemma of_loop_simps [simp]: "of_loop None = Diverges" "of_loop (Some v) = Ret v"
  by (simp_all add: of_loop_def)

lemma bind_outcome_simps [simp]:
  "bind_outcome (Ret v) f = f v"
  "bind_outcome (Fail e) f = Fail e"
  "bind_outcome Panics f = Panics"
  "bind_outcome Diverges f = Diverges"
  by (simp_all add: bind_outcome_def)

lemma bind_outcome_Ret_iff:
  "bind_outcome r f = Ret w \<longleftrightarrow> (\<exists>v. r = Ret v \<and> f v = Ret w)"
  by (cases r) simp_all

lemma bind_outcome_assoc:
  "bind_outcome (bind_outcome r f) g = bind_outcome r (\<lambda>v. bind_outcome (f v) g)"
  by (cases r) simp_all

section \<open>Generic list facts\<close>

lemma takeWhile_append_stop:
  "(\<forall>x \<in> set xs. P x) \<Longrightarrow> \<not> P y \<Longrightarrow> takeWhile P (xs @ y # ys) = xs"
  by (induction xs) auto

lemma dropWhile_append_stop:
  "(\<forall>x \<in> set xs. P x) \<Longrightarrow> \<not> P y \<Longrightarrow> dropWhile P (xs @ y # ys) = y # ys"
  by (induction xs) auto

lemma sum_list_update_less:
  fixes f :: "'a \<Rightarrow> nat"
  assumes "i < length xs" and "f y < f (xs ! i)"
  shows "sum_list (map f (xs[i := y])) < sum_list (map f xs)"
  using assms
proof (induction xs arbitrary: i)
  case Nil
  then show ?case by simp
next
  case (Cons x xs)
  then show ?case by (cases i) auto
qed

lemma filter_update_length:
  assumes "i < length xs" and "P (xs ! i)" and "\<not> P y"
  shows "Suc (length (filter P (xs[i := y]))) = length (filter P xs)"
  using assms
proof (induction xs arbitrary: i)
  case Nil
  then show ?case by simp
next
  case (Cons x xs)
  then show ?case by (cases i) auto
qed

lemma nth_Some: "None \<notin> set xs \<Longrightarrow> i < length xs \<Longrightarrow> \<exists>y. xs ! i = Some y"
  by (metis nth_mem not_None_eq)

lemma sum_list_update_add:
  fixes xs :: "'a :: comm_monoid_add list"
  shows "i < length xs \<Longrightarrow> sum_list (xs[i := y]) + xs ! i = sum_list xs + y"
proof (induction xs arbitrary: i)
  case (Cons x xs)
  then show ?case by (cases i) (simp_all add: ac_simps)
qed simp

section \<open>Contracts of the concurrent components\<close>

text \<open>
  A concurrent operation is a step relation: one step is one goroutine moving. The weight
  bounds how many steps are left, so every schedule ends.
\<close>

locale step_system =
  fixes step :: "'s \<Rightarrow> 's \<Rightarrow> bool"
    and inv :: "'s \<Rightarrow> bool"
    and weight :: "'s \<Rightarrow> nat"
  assumes inv_step: "inv s \<Longrightarrow> step s t \<Longrightarrow> inv t"
    and weight_step: "inv s \<Longrightarrow> step s t \<Longrightarrow> weight t < weight s"
begin

lemma inv_steps: "step\<^sup>*\<^sup>* s t \<Longrightarrow> inv s \<Longrightarrow> inv t"
  by (induction rule: rtranclp_induct) (auto intro: inv_step)

lemma run_length: "inv s \<Longrightarrow> (step ^^ n) s t \<Longrightarrow> n + weight t \<le> weight s"
proof (induction n arbitrary: t)
  case 0
  then show ?case by simp
next
  case (Suc n)
  then obtain u where u: "(step ^^ n) s u" "step u t" by auto
  from u(1) have "step\<^sup>*\<^sup>* s u" by (rule relpowp_imp_rtranclp)
  with Suc.prems(1) have "inv u" by (blast intro: inv_steps)
  with u(2) have "weight t < weight u" by (blast intro: weight_step)
  moreover from Suc.IH [OF Suc.prems(1) u(1)] have "n + weight u \<le> weight s" .
  ultimately show ?case by simp
qed

lemma reaches_stuck: "inv s \<Longrightarrow> \<exists>t. step\<^sup>*\<^sup>* s t \<and> (\<nexists>u. step t u)"
proof (induction s rule: measure_induct_rule [where f = weight])
  case (less s)
  show ?case
  proof (cases "\<exists>u. step s u")
    case True
    then obtain u where u: "step s u" by blast
    with less.prems have "weight u < weight s" "inv u"
      by (blast intro: weight_step inv_step)+
    then obtain t where "step\<^sup>*\<^sup>* u t" "\<nexists>v. step t v" using less.IH by blast
    with u show ?thesis by (blast intro: converse_rtranclp_into_rtranclp)
  next
    case False
    then show ?thesis by blast
  qed
qed

end

text \<open>A step system without deadlock: a state that is not final can move.\<close>

locale live_system = step_system step inv weight
  for step :: "'s \<Rightarrow> 's \<Rightarrow> bool" and inv :: "'s \<Rightarrow> bool" and weight :: "'s \<Rightarrow> nat" +
  fixes final :: "'s \<Rightarrow> bool"
  assumes progress: "inv s \<Longrightarrow> \<not> final s \<Longrightarrow> \<exists>t. step s t"
begin

lemma stuck_final: "inv s \<Longrightarrow> step\<^sup>*\<^sup>* s t \<Longrightarrow> (\<nexists>u. step t u) \<Longrightarrow> final t"
  using inv_steps progress by blast

lemma reaches_final: "inv s \<Longrightarrow> \<exists>t. step\<^sup>*\<^sup>* s t \<and> final t"
  using reaches_stuck stuck_final by blast

end

end
