(* ===== verification/Go_Error.thy ===== *)
theory Go_Error
  imports Iago_Prelude
begin

text \<open>
  Go error values as the repository builds and inspects them: sentinels, formatted errors
  with and without a wrapped cause, joined errors, the path errors of the file systems, and
  the repository's own \<open>TaskError\<close> (iago.go). A nil error is \<open>None\<close>. On top of them
  \<open>errors.Is\<close>, \<open>errors.Join\<close>, \<open>errors.AsType[ExitStatus]\<close>, and from iago.go
  \<open>safeClose\<close>, \<open>wrapError\<close> and the collector \<open>Errors\<close>.
\<close>

section \<open>Error values\<close>

text \<open>
  A formatted error keeps its format string and its arguments instead of the rendered text.
  \<open>Native n ts\<close> is an error of a package outside the repository that answers to the
  sentinels \<open>ts\<close> under \<open>errors.Is\<close>, and \<open>ExitError n\<close> one that implements
  \<open>ExitStatus\<close>.
\<close>

datatype err =
    Sentinel string
  | Native string "string list"
  | ExitError int
  | Errorf string "string list"
  | Wrapf string "string list" err
  | Joined "err list"
  | TaskError (TaskName: string) (HostName: string) (Err: err)
  | PathError string string err
  | LinkError string string string err

type_synonym error = "err option"

abbreviation EOF :: string where "EOF \<equiv> ''EOF''"
abbreviation ErrNotExist :: string where "ErrNotExist \<equiv> ''file does not exist''"
abbreviation ErrInvalid :: string where "ErrInvalid \<equiv> ''invalid argument''"

section \<open>errors.Is, errors.Join, errors.AsType\<close>

fun is_err :: "string \<Rightarrow> err \<Rightarrow> bool" where
  "is_err t (Sentinel n) = (n = t)"
| "is_err t (Native _ ts) = (t \<in> set ts)"
| "is_err t (ExitError _) = False"
| "is_err t (Errorf _ _) = False"
| "is_err t (Wrapf _ _ e) = is_err t e"
| "is_err t (Joined es) = list_ex (is_err t) es"
| "is_err t (TaskError _ _ e) = is_err t e"
| "is_err t (PathError _ _ e) = is_err t e"
| "is_err t (LinkError _ _ _ e) = is_err t e"

definition errors_Is :: "error \<Rightarrow> string \<Rightarrow> bool" where
  "errors_Is e t = (case e of None \<Rightarrow> False | Some e' \<Rightarrow> is_err t e')"

fun non_nil :: "error list \<Rightarrow> err list" where
  "non_nil [] = []"
| "non_nil (None # es) = non_nil es"
| "non_nil (Some e # es) = e # non_nil es"

definition errors_Join :: "error list \<Rightarrow> error" where
  "errors_Join es = (if non_nil es = [] then None else Some (Joined (non_nil es)))"

fun exit_status :: "err \<Rightarrow> int option"
  and first_exit_status :: "err list \<Rightarrow> int option" where
  "exit_status (Sentinel _) = None"
| "exit_status (Native _ _) = None"
| "exit_status (ExitError n) = Some n"
| "exit_status (Errorf _ _) = None"
| "exit_status (Wrapf _ _ e) = exit_status e"
| "exit_status (Joined es) = first_exit_status es"
| "exit_status (TaskError _ _ e) = exit_status e"
| "exit_status (PathError _ _ e) = exit_status e"
| "exit_status (LinkError _ _ _ e) = exit_status e"
| "first_exit_status [] = None"
| "first_exit_status (e # es) =
     (case exit_status e of None \<Rightarrow> first_exit_status es | Some n \<Rightarrow> Some n)"

lemma errors_Is_simps [simp]:
  "errors_Is None t = False"
  "errors_Is (Some e) t = is_err t e"
  by (simp_all add: errors_Is_def)

lemma set_non_nil: "e \<in> set (non_nil es) \<longleftrightarrow> Some e \<in> set es"
  by (induction es rule: non_nil.induct) auto

lemma non_nil_append [simp]: "non_nil (es @ fs) = non_nil es @ non_nil fs"
  by (induction es rule: non_nil.induct) auto

lemma non_nil_map_Some [simp]: "non_nil (map Some es) = es"
  by (induction es) auto

lemma non_nil_Nil_iff: "non_nil es = [] \<longleftrightarrow> set es \<subseteq> {None}"
  by (induction es rule: non_nil.induct) auto

lemma errors_Join_None_iff: "errors_Join es = None \<longleftrightarrow> set es \<subseteq> {None}"
  by (simp add: errors_Join_def non_nil_Nil_iff)

lemma errors_Join_simps [simp]: "errors_Join [] = None"
  by (simp add: errors_Join_def)

lemma errors_Join_map_Some:
  "errors_Join (map Some es) = (if es = [] then None else Some (Joined es))"
  by (simp add: errors_Join_def)

lemma errors_Is_Join: "errors_Is (errors_Join es) t \<longleftrightarrow> (\<exists>e. Some e \<in> set es \<and> is_err t e)"
  by (cases "non_nil es") (auto simp: errors_Join_def list_ex_iff simp flip: set_non_nil)

section \<open>safeClose and wrapError\<close>

text \<open>
  \<open>safeClose closed cur ignored\<close>: \<open>closed\<close> is what \<open>closer.Close()\<close> returned and \<open>cur\<close>
  the value behind \<open>errPtr\<close>; the result is the value \<open>errPtr\<close> holds afterwards.
\<close>

definition safeClose :: "error \<Rightarrow> error \<Rightarrow> string list \<Rightarrow> error" where
  "safeClose closed cur ignored =
     (case cur of
        Some e \<Rightarrow> Some e
      | None \<Rightarrow> (if list_ex (errors_Is closed) ignored then None else closed))"

definition wrapError :: "string \<Rightarrow> string \<Rightarrow> error \<Rightarrow> error" where
  "wrapError hostName taskName e =
     (case e of None \<Rightarrow> None | Some e' \<Rightarrow> Some (TaskError taskName hostName e'))"

fun Unwrap :: "err \<Rightarrow> error" where
  "Unwrap (TaskError _ _ e) = Some e"
| "Unwrap _ = None"

lemma safeClose_simps [simp]:
  "safeClose closed (Some e) ignored = Some e"
  "safeClose None None ignored = None"
  by (auto simp: safeClose_def)

lemma wrapError_simps [simp]:
  "wrapError h t None = None"
  "wrapError h t (Some e) = Some (TaskError t h e)"
  by (simp_all add: wrapError_def)

lemma wrapError_None_iff [simp]: "wrapError h t e = None \<longleftrightarrow> e = None"
  by (cases e) simp_all

lemma errors_Is_wrapError [simp]: "errors_Is (wrapError h t e) s = errors_Is e s"
  by (cases e) simp_all

section \<open>The error collector\<close>

record Errors =
  errs :: "err list"

definition zero_Errors :: Errors where
  "zero_Errors = \<lparr>errs = []\<rparr>"

definition Errors_Handle :: "Errors \<Rightarrow> err \<Rightarrow> Errors" where
  "Errors_Handle c e = c\<lparr>errs := errs c @ [e]\<rparr>"

definition Errors_Err :: "Errors \<Rightarrow> error" where
  "Errors_Err c = errors_Join (map Some (errs c))"

lemma errs_Handle [simp]: "errs (Errors_Handle c e) = errs c @ [e]"
  by (simp add: Errors_Handle_def)

lemma errs_zero [simp]: "errs zero_Errors = []"
  by (simp add: zero_Errors_def)

lemma Errors_Err_eq: "Errors_Err c = (if errs c = [] then None else Some (Joined (errs c)))"
  by (simp add: Errors_Err_def errors_Join_map_Some)

text \<open>
  The contract of an error handler that records: what \<open>Group.Run\<close> relies on when the
  errors it hands over are to be found again.
\<close>

locale recording_handler =
  fixes handle :: "'c \<Rightarrow> err \<Rightarrow> 'c"
    and recorded :: "'c \<Rightarrow> err list"
  assumes recorded_handle: "recorded (handle c e) = recorded c @ [e]"
begin

lemma recorded_fold: "recorded (fold (\<lambda>e c. handle c e) es c) = recorded c @ es"
  by (induction es arbitrary: c) (simp_all add: recorded_handle)

end

interpretation collector: recording_handler Errors_Handle errs
  by unfold_locales simp

end
