(* ===== verification/Go_Strings.thy ===== *)
theory Go_Strings
  imports Iago_Prelude
begin

text \<open>
  The functions of Go's \<open>strings\<close>, \<open>strconv\<close> and \<open>fmt\<close> that the repository calls, on
  byte strings: a Go string is a list of bytes and so is \<open>string\<close>. White space is
  Unicode white space in its UTF-8 encoding, as \<open>strings.TrimSpace\<close> and
  \<open>strings.Fields\<close> have it; a lead byte never occurs inside another character, so
  comparing bytes and comparing characters give the same positions.
\<close>

section \<open>Prefixes, splitting, cutting\<close>

definition HasPrefix :: "string \<Rightarrow> string \<Rightarrow> bool" where
  "HasPrefix s p \<longleftrightarrow> take (length p) s = p"

definition TrimPrefix :: "string \<Rightarrow> string \<Rightarrow> string" where
  "TrimPrefix s p = (if HasPrefix s p then drop (length p) s else s)"

definition ContainsAny :: "string \<Rightarrow> string \<Rightarrow> bool" where
  "ContainsAny s cs = list_ex (\<lambda>c. c \<in> set cs) s"

text \<open>\<open>strings.Split\<close> with a separator of one byte, and \<open>strings.SplitN\<close>.\<close>

fun Split :: "string \<Rightarrow> char \<Rightarrow> string list" where
  "Split [] c = [[]]"
| "Split (x # xs) c =
     (if x = c then [] # Split xs c
      else (case Split xs c of [] \<Rightarrow> [[x]] | y # ys \<Rightarrow> (x # y) # ys))"

fun SplitN :: "string \<Rightarrow> char \<Rightarrow> nat \<Rightarrow> string list" where
  "SplitN s c 0 = []"
| "SplitN s c (Suc 0) = [s]"
| "SplitN [] c (Suc (Suc n)) = [[]]"
| "SplitN (x # xs) c (Suc (Suc n)) =
     (if x = c then [] # SplitN xs c (Suc n)
      else (case SplitN xs c (Suc (Suc n)) of [] \<Rightarrow> [[x]] | y # ys \<Rightarrow> (x # y) # ys))"

text \<open>\<open>strings.Cut\<close> at a separator of one byte: before, after, found.\<close>

definition Cut :: "string \<Rightarrow> char \<Rightarrow> string \<times> string \<times> bool" where
  "Cut s c =
     (case dropWhile (\<lambda>x. x \<noteq> c) s of
        [] \<Rightarrow> (s, [], False)
      | _ # rest \<Rightarrow> (takeWhile (\<lambda>x. x \<noteq> c) s, rest, True))"

text \<open>\<open>strings.Lines\<close>: the lines with their newline, the last one possibly without.\<close>

definition newline :: char where
  "newline = CHR 0x0A"

fun Lines :: "string \<Rightarrow> string list" where
  "Lines [] = []"
| "Lines (x # xs) =
     (if x = newline then [x] # Lines xs
      else (case Lines xs of [] \<Rightarrow> [[x]] | y # ys \<Rightarrow> (x # y) # ys))"

text \<open>\<open>strings.ReplaceAll\<close> for a non-empty old string.\<close>

fun ReplaceAll :: "string \<Rightarrow> string \<Rightarrow> string \<Rightarrow> string" where
  "ReplaceAll [] old new = []"
| "ReplaceAll (c # cs) old new =
     (if old \<noteq> [] \<and> HasPrefix (c # cs) old
      then new @ ReplaceAll (drop (length old - 1) cs) old new
      else c # ReplaceAll cs old new)"

section \<open>White space\<close>

definition space_runes :: "string list" where
  "space_runes =
     [[CHR 0x20], [CHR 0x09], [CHR 0x0A], [CHR 0x0B], [CHR 0x0C], [CHR 0x0D],
      [CHR 0xC2, CHR 0x85], [CHR 0xC2, CHR 0xA0], [CHR 0xE1, CHR 0x9A, CHR 0x80],
      [CHR 0xE2, CHR 0x80, CHR 0x80], [CHR 0xE2, CHR 0x80, CHR 0x81],
      [CHR 0xE2, CHR 0x80, CHR 0x82], [CHR 0xE2, CHR 0x80, CHR 0x83],
      [CHR 0xE2, CHR 0x80, CHR 0x84], [CHR 0xE2, CHR 0x80, CHR 0x85],
      [CHR 0xE2, CHR 0x80, CHR 0x86], [CHR 0xE2, CHR 0x80, CHR 0x87],
      [CHR 0xE2, CHR 0x80, CHR 0x88], [CHR 0xE2, CHR 0x80, CHR 0x89],
      [CHR 0xE2, CHR 0x80, CHR 0x8A], [CHR 0xE2, CHR 0x80, CHR 0xA8],
      [CHR 0xE2, CHR 0x80, CHR 0xA9], [CHR 0xE2, CHR 0x80, CHR 0xAF],
      [CHR 0xE2, CHR 0x81, CHR 0x9F], [CHR 0xE3, CHR 0x80, CHR 0x80]]"

text \<open>The length of the white space character \<open>s\<close> starts with, 0 if it starts with none.\<close>

definition space_len :: "string list \<Rightarrow> string \<Rightarrow> nat" where
  "space_len rs s = (case find (HasPrefix s) rs of None \<Rightarrow> 0 | Some r \<Rightarrow> length r)"

function trim_left :: "string list \<Rightarrow> string \<Rightarrow> string" where
  "trim_left rs s =
     (if s \<noteq> [] \<and> 0 < space_len rs s then trim_left rs (drop (space_len rs s) s) else s)"
  by pat_completeness auto
termination
  by (relation "measure (\<lambda>(rs, s). length s)") auto

declare trim_left.simps [simp del]

definition TrimLeftSpace :: "string \<Rightarrow> string" where
  "TrimLeftSpace s = trim_left space_runes s"

definition TrimRightSpace :: "string \<Rightarrow> string" where
  "TrimRightSpace s = rev (trim_left (map rev space_runes) (rev s))"

definition TrimSpace :: "string \<Rightarrow> string" where
  "TrimSpace s = TrimRightSpace (TrimLeftSpace s)"

text \<open>The part of \<open>s\<close> before its first white space character.\<close>

fun until_space :: "string \<Rightarrow> string" where
  "until_space [] = []"
| "until_space (c # cs) =
     (if 0 < space_len space_runes (c # cs) then [] else c # until_space cs)"

lemma length_trim_left: "length (trim_left rs s) \<le> length s"
proof (induction rs s rule: trim_left.induct)
  case (1 rs s)
  then show ?case by (subst trim_left.simps) force
qed

lemma trim_left_fix: "space_len rs (trim_left rs s) = 0 \<or> trim_left rs s = []"
proof (induction rs s rule: trim_left.induct)
  case (1 rs s)
  then show ?case by (subst (1 2) trim_left.simps) auto
qed

function Fields :: "string \<Rightarrow> string list" where
  "Fields s =
     (let t = TrimLeftSpace s in
      if t = [] then [] else until_space t # Fields (drop (length (until_space t)) t))"
  by pat_completeness auto
termination
proof (relation "measure length")
  show "wf (measure length)" by simp
next
  fix s t :: string
  assume t: "t = TrimLeftSpace s" and "t \<noteq> []"
  then have "space_len space_runes t = 0"
    using trim_left_fix [of space_runes s] by (auto simp: TrimLeftSpace_def)
  with \<open>t \<noteq> []\<close> have "0 < length (until_space t)" by (cases t) auto
  moreover have "length t \<le> length s"
    using t length_trim_left [of space_runes s] by (simp add: TrimLeftSpace_def)
  ultimately show "(drop (length (until_space t)) t, s) \<in> measure length"
    using \<open>t \<noteq> []\<close> by (simp add: diff_less_mono2 less_le_trans [of _ "length t"])
qed

declare Fields.simps [simp del]

section \<open>Letter case\<close>

text \<open>
  \<open>ToLower\<close> on the ASCII letters; the bytes of other characters are kept, which the
  callers cannot tell apart: they compare the result with ASCII words without k and i, the
  only letters another character lowers to. \<open>EqualFold\<close> against a lower-case ASCII word
  includes the two characters that fold to ASCII letters, U+017F (s) and U+212A (k).
\<close>

definition lower_char :: "char \<Rightarrow> char" where
  "lower_char c =
     (if 65 \<le> (of_char c :: nat) \<and> (of_char c :: nat) \<le> 90
      then char_of (of_char c + (32 :: nat)) else c)"

definition ToLower :: "string \<Rightarrow> string" where
  "ToLower s = map lower_char s"

fun EqualFold :: "string \<Rightarrow> string \<Rightarrow> bool" where
  "EqualFold s [] = (s = [])"
| "EqualFold [] (w # ws) = False"
| "EqualFold (c # cs) (w # ws) =
     (if lower_char c = w then EqualFold cs ws
      else if w = CHR ''s'' \<and> HasPrefix (c # cs) [CHR 0xC5, CHR 0xBF] then EqualFold (drop 1 cs) ws
      else if w = CHR ''k'' \<and> HasPrefix (c # cs) [CHR 0xE2, CHR 0x84, CHR 0xAA]
      then EqualFold (drop 2 cs) ws
      else False)"

section \<open>Numbers\<close>

definition MaxInt :: int where "MaxInt = 2 ^ 63 - 1"
definition MinInt :: int where "MinInt = - (2 ^ 63)"

lemma MaxInt_eq [code, simp]: "MaxInt = 9223372036854775807"
  by (simp add: MaxInt_def)

lemma MinInt_eq [code, simp]: "MinInt = - 9223372036854775808"
  by (simp add: MinInt_def)

definition is_digit :: "char \<Rightarrow> bool" where
  "is_digit c \<longleftrightarrow> 48 \<le> (of_char c :: int) \<and> (of_char c :: int) \<le> 57"

definition digit_val :: "char \<Rightarrow> int" where
  "digit_val c = of_char c - 48"

definition digit_char :: "int \<Rightarrow> char" where
  "digit_char d = char_of (48 + d)"

definition digits_val :: "string \<Rightarrow> int" where
  "digits_val s = foldl (\<lambda>n c. 10 * n + digit_val c) 0 s"

text \<open>\<open>strconv.Atoi\<close>: \<open>None\<close> stands for its error (bad syntax or out of range).\<close>

definition Atoi :: "string \<Rightarrow> int option" where
  "Atoi s =
     (let (neg, ds) = (case s of
            [] \<Rightarrow> (False, [])
          | c # cs \<Rightarrow> if c = CHR ''-'' then (True, cs)
                      else if c = CHR ''+'' then (False, cs) else (False, c # cs));
          n = digits_val ds
      in if ds = [] \<or> \<not> list_all is_digit ds then None
         else if neg then (if MinInt \<le> - n then Some (- n) else None)
         else (if n \<le> MaxInt then Some n else None))"

text \<open>Decimal printing: the verb \<open>%d\<close> and, zero padded to a width, \<open>%0*d\<close>.\<close>

function show_nat :: "int \<Rightarrow> string" where
  "show_nat n =
     (if n < 10 then [digit_char n] else show_nat (n div 10) @ [digit_char (n mod 10)])"
  by pat_completeness auto
termination
  by (relation "measure nat") auto

declare show_nat.simps [simp del]

definition show_int :: "int \<Rightarrow> string" where
  "show_int i = (if i < 0 then CHR ''-'' # show_nat (- i) else show_nat i)"

definition show_int_padded :: "nat \<Rightarrow> int \<Rightarrow> string" where
  "show_int_padded w i =
     (let ds = show_nat \<bar>i\<bar>; sign = (if i < 0 then ''-'' else [])
      in sign @ replicate (w - length sign - length ds) CHR ''0'' @ ds)"


section \<open>Splitting and joining\<close>

text \<open>\<open>strings.Join\<close> with a separator of one byte.\<close>

fun join_with :: "char \<Rightarrow> string list \<Rightarrow> string" where
  "join_with c [] = []"
| "join_with c [x] = x"
| "join_with c (x # y # ys) = x @ c # join_with c (y # ys)"

lemma Split_not_Nil [simp]: "Split s c \<noteq> []"
  by (induction s) (auto split: list.splits)

lemma Split_no_sep: "p \<in> set (Split s c) \<Longrightarrow> c \<notin> set p"
  by (induction s arbitrary: p) (force split: if_splits list.splits)+

lemma join_with_Cons: "xs \<noteq> [] \<Longrightarrow> join_with c (x # xs) = x @ c # join_with c xs"
  by (cases xs) simp_all

lemma join_with_head: "join_with c ((x # y) # ys) = x # join_with c (y # ys)"
  by (cases ys) simp_all

lemma join_with_Split [simp]: "join_with c (Split s c) = s"
proof (induction s)
  case Nil
  then show ?case by simp
next
  case (Cons x xs)
  then show ?case
    by (cases "Split xs c") (auto simp: join_with_Cons join_with_head)
qed

lemma Split_single: "c \<notin> set s \<Longrightarrow> Split s c = [s]"
  by (induction s) auto

lemma Split_append_sep: "c \<notin> set s \<Longrightarrow> Split (s @ c # t) c = s # Split t c"
  by (induction s) auto

lemma Split_join_with:
  "xs \<noteq> [] \<Longrightarrow> \<forall>x \<in> set xs. c \<notin> set x \<Longrightarrow> Split (join_with c xs) c = xs"
  by (induction c xs rule: join_with.induct) (auto simp: Split_single Split_append_sep)

lemma Cut_found: "c \<notin> set k \<Longrightarrow> Cut (k @ c # v) c = (k, v, True)"
proof -
  assume "c \<notin> set k"
  then have "\<forall>x \<in> set k. x \<noteq> c" by blast
  then show ?thesis
    by (simp add: Cut_def dropWhile_append_stop takeWhile_append_stop)
qed

lemma Cut_missing: "c \<notin> set s \<Longrightarrow> Cut s c = (s, [], False)"
proof -
  assume "c \<notin> set s"
  then have "\<forall>x \<in> set s. x \<noteq> c" by blast
  then have "dropWhile (\<lambda>x. x \<noteq> c) s = []" by (simp only: dropWhile_eq_Nil_conv)
  then show ?thesis by (simp only: Cut_def list.case)
qed

lemma concat_Lines [simp]: "concat (Lines s) = s"
  by (induction s) (auto split: list.splits)

lemma Lines_line: "newline \<notin> set l \<Longrightarrow> Lines (l @ newline # s) = (l @ [newline]) # Lines s"
  by (induction l) auto

section \<open>Trimming\<close>

lemma trim_left_no_space: "space_len rs s = 0 \<Longrightarrow> trim_left rs s = s"
  by (subst trim_left.simps) simp

lemma trim_left_suffix: "\<exists>w. s = w @ trim_left rs s"
proof (induction rs s rule: trim_left.induct)
  case (1 rs s)
  show ?case
  proof (cases "s \<noteq> [] \<and> 0 < space_len rs s")
    case True
    with 1 obtain w where w: "drop (space_len rs s) s = w @ trim_left rs (drop (space_len rs s) s)"
      by blast
    have "s = take (space_len rs s) s @ w @ trim_left rs (drop (space_len rs s) s)"
      using w by (metis append_take_drop_id)
    moreover have "trim_left rs s = trim_left rs (drop (space_len rs s) s)"
      using True by (subst trim_left.simps) simp
    ultimately show ?thesis by (metis append_assoc)
  next
    case False
    then show ?thesis by (subst trim_left.simps) auto
  qed
qed

definition trimmed :: "string \<Rightarrow> bool" where
  "trimmed s \<longleftrightarrow> space_len space_runes s = 0 \<and> space_len (map rev space_runes) (rev s) = 0"

lemma TrimSpace_trimmed: "trimmed s \<Longrightarrow> TrimSpace s = s"
  by (simp add: trimmed_def TrimSpace_def TrimLeftSpace_def TrimRightSpace_def trim_left_no_space)

lemma set_trim_left: "set (trim_left rs s) \<subseteq> set s"
  using trim_left_suffix [of s rs] by (metis set_append sup_ge2)

lemma set_TrimSpace: "set (TrimSpace s) \<subseteq> set s"
  unfolding TrimSpace_def TrimRightSpace_def TrimLeftSpace_def
  using set_trim_left by (metis set_rev subset_trans)

section \<open>Decimal numbers\<close>

lemma of_char_digit_char [simp]:
  "0 \<le> d \<Longrightarrow> d < 10 \<Longrightarrow> of_char (digit_char d) = (48 + d :: int)"
  by (simp add: digit_char_def)

lemma digit_val_digit_char [simp]: "0 \<le> d \<Longrightarrow> d < 10 \<Longrightarrow> digit_val (digit_char d) = d"
  by (simp add: digit_val_def)

lemma is_digit_digit_char [simp]: "0 \<le> d \<Longrightarrow> d < 10 \<Longrightarrow> is_digit (digit_char d)"
  by (simp add: is_digit_def)

lemma digits_val_Nil [simp]: "digits_val [] = 0"
  by (simp add: digits_val_def)

lemma digits_val_snoc [simp]: "digits_val (ds @ [c]) = 10 * digits_val ds + digit_val c"
  by (simp add: digits_val_def)

lemma digits_val_nonneg: "list_all is_digit ds \<Longrightarrow> 0 \<le> digits_val ds"
  by (induction ds rule: rev_induct) (auto simp: digit_val_def is_digit_def)

lemma digits_val_zeros: "digits_val (replicate k CHR ''0'' @ ds) = digits_val ds"
proof (induction ds rule: rev_induct)
  case Nil
  have "digits_val (replicate k CHR ''0'') = 0"
  proof (induction k)
    case (Suc k)
    have "replicate (Suc k) CHR ''0'' = replicate k CHR ''0'' @ [CHR ''0'']"
      by (simp add: replicate_append_same)
    with Suc show ?case by (simp only: digits_val_snoc) (simp add: digit_val_def)
  qed simp
  then show ?case by simp
next
  case (snoc c ds)
  then show ?case by (simp flip: append_assoc)
qed

lemma show_nat_not_Nil [simp]: "show_nat n \<noteq> []"
  by (subst show_nat.simps) simp

lemma show_nat_digits: "0 \<le> n \<Longrightarrow> list_all is_digit (show_nat n)"
proof (induction n rule: show_nat.induct)
  case (1 n)
  then show ?case by (subst show_nat.simps) simp
qed

lemma digits_val_show_nat [simp]: "0 \<le> n \<Longrightarrow> digits_val (show_nat n) = n"
proof (induction n rule: show_nat.induct)
  case (1 n)
  show ?case
  proof (cases "n < 10")
    case True
    with 1 show ?thesis
      by (subst show_nat.simps) (simp add: digits_val_def)
  next
    case False
    with 1 show ?thesis
      by (subst show_nat.simps) simp
  qed
qed

lemma show_nat_inject: "0 \<le> m \<Longrightarrow> 0 \<le> n \<Longrightarrow> show_nat m = show_nat n \<longleftrightarrow> m = n"
  by (metis digits_val_show_nat)

lemma is_digit_simps [simp]: "\<not> is_digit CHR ''-''" "\<not> is_digit CHR ''+''" "is_digit CHR ''0''"
  by (simp_all add: is_digit_def)

lemma Atoi_digits:
  assumes "ds \<noteq> []" and "list_all is_digit ds"
  shows "Atoi ds = (if digits_val ds \<le> MaxInt then Some (digits_val ds) else None)"
proof -
  obtain c cs where ds: "ds = c # cs" using assms(1) by (cases ds) auto
  with assms(2) have "c \<noteq> CHR ''-''" "c \<noteq> CHR ''+''" by auto
  with ds assms show ?thesis by (simp add: Atoi_def Let_def)
qed

lemma Atoi_range: "Atoi s = Some n \<Longrightarrow> MinInt \<le> n \<and> n \<le> MaxInt"
proof -
  assume a: "Atoi s = Some n"
  obtain neg ds where nd: "(case s of [] \<Rightarrow> (False, [])
          | c # cs \<Rightarrow> if c = CHR ''-'' then (True, cs)
                      else if c = CHR ''+'' then (False, cs) else (False, c # cs)) = (neg, ds)"
    by fastforce
  with a have "list_all is_digit ds" by (simp add: Atoi_def Let_def split: if_splits)
  then have "0 \<le> digits_val ds" by (rule digits_val_nonneg)
  with a nd show ?thesis by (auto simp: Atoi_def Let_def split: if_splits)
qed

lemma Atoi_show_int: "MinInt \<le> i \<Longrightarrow> i \<le> MaxInt \<Longrightarrow> Atoi (show_int i) = Some i"
proof (cases "i < 0")
  case True
  assume "MinInt \<le> i"
  with True show ?thesis
    by (simp add: show_int_def Atoi_def show_nat_digits)
next
  case False
  assume "i \<le> MaxInt"
  with False show ?thesis
    by (simp add: show_int_def Atoi_digits show_nat_digits)
qed

lemma show_int_padded_nonneg:
  "0 \<le> i \<Longrightarrow> show_int_padded w i = replicate (w - length (show_nat i)) CHR ''0'' @ show_nat i"
  by (simp add: show_int_padded_def Let_def)

lemma list_all_replicate: "P x \<Longrightarrow> list_all P (replicate n x)"
  by (induction n) simp_all

lemma Atoi_show_int_padded:
  assumes "0 \<le> i" "i \<le> MaxInt"
  shows "Atoi (show_int_padded w i) = Some i"
proof -
  have "list_all is_digit (show_int_padded w i)"
    using assms(1) by (simp add: show_int_padded_nonneg show_nat_digits list_all_replicate)
  moreover have "show_int_padded w i \<noteq> []"
    using assms(1) by (simp add: show_int_padded_nonneg)
  ultimately show ?thesis
    using assms by (simp add: Atoi_digits show_int_padded_nonneg digits_val_zeros)
qed

end
