(* ===== verification/Go_Int.thy ===== *)
theory Go_Int
  imports Go_Strings "HOL-Library.Word"
begin

text \<open>
  Go's \<open>int\<close> and \<open>int64\<close> on a 64-bit platform: mathematical integers between \<open>MinInt\<close>
  and \<open>MaxInt\<close>, with the wrap-around of every arithmetic operation written out by
  \<open>wrap_int\<close>; and the check \<open>make\<close> does on a slice's capacity.
\<close>

definition wrap_int :: "int \<Rightarrow> int" where
  "wrap_int n = signed_take_bit 63 n"

definition in_int :: "int \<Rightarrow> bool" where
  "in_int n \<longleftrightarrow> MinInt \<le> n \<and> n \<le> MaxInt"

text \<open>It is the signed value of the 64-bit word.\<close>

lemma wrap_int_word: "wrap_int n = sint (word_of_int n :: 64 word)"
  by (simp add: wrap_int_def sint_sbintrunc')

lemma wrap_int_id [simp]: "in_int n \<Longrightarrow> wrap_int n = n"
  by (simp add: wrap_int_def in_int_def signed_take_bit_int_eq_self)

lemma in_int_wrap_int: "in_int (wrap_int n)"
  using signed_take_bit_int_less_exp [of 63 n] signed_take_bit_int_greater_eq_minus_exp [of 63 n]
  by (simp add: wrap_int_def in_int_def)

lemma wrap_int_mod: "wrap_int n = (n + 2 ^ 63) mod 2 ^ 64 - 2 ^ 63"
  by (simp add: wrap_int_def signed_take_bit_eq_take_bit_shift take_bit_eq_mod)

lemma wrap_int_wrap: "wrap_int (n - 2 ^ 64) = wrap_int n"
proof -
  have "(n + 2 ^ 63 - 2 ^ 64) mod 2 ^ 64 = (n + 2 ^ 63) mod (2 ^ 64 :: int)"
    by (rule minus_mod_self2)
  then show ?thesis by (simp add: wrap_int_mod algebra_simps)
qed

lemma wrap_int_Suc_MaxInt: "wrap_int (MaxInt + 1) = MinInt"
  by (simp add: wrap_int_def signed_take_bit_eq_take_bit_minus take_bit_eq_mod)

text \<open>
  \<open>make([]T, 0, cap)\<close> panics when the capacity is negative or the slice would be larger
  than the address space the run time manages (48 bits on 64-bit platforms).
\<close>

definition make_ok :: "int \<Rightarrow> int \<Rightarrow> bool" where
  "make_ok elem_size cap \<longleftrightarrow> 0 \<le> cap \<and> cap * elem_size \<le> 2 ^ 48"

end
