(* ===== verification/Go_Path.thy ===== *)
theory Go_Path
  imports Go_Strings
begin

text \<open>
  The lexical path functions of Go's \<open>path\<close> and \<open>path/filepath\<close> (on Unix, where they
  agree) that fs.go and ssh_config.go call: \<open>IsAbs\<close>, \<open>Clean\<close>, \<open>Join\<close>, \<open>Dir\<close>,
  \<open>Base\<close>. \<open>Clean\<close> processes the components from left to right with a stack, as its
  documentation says.
\<close>

definition IsAbs :: "string \<Rightarrow> bool" where
  "IsAbs p = HasPrefix p ''/''"

fun clean_step :: "bool \<Rightarrow> string list \<Rightarrow> string \<Rightarrow> string list" where
  "clean_step rooted st c =
     (if c = [] \<or> c = ''.'' then st
      else if c = ''..'' then
        (case st of
           [] \<Rightarrow> if rooted then [] else [c]
         | d # rest \<Rightarrow> if d = ''..'' then c # st else rest)
      else c # st)"

definition clean_comps :: "bool \<Rightarrow> string \<Rightarrow> string list" where
  "clean_comps rooted p = rev (foldl (clean_step rooted) [] (Split p CHR ''/''))"

definition unsplit :: "bool \<Rightarrow> string list \<Rightarrow> string" where
  "unsplit rooted cs =
     (if rooted then CHR ''/'' # join_with CHR ''/'' cs
      else if cs = [] then ''.'' else join_with CHR ''/'' cs)"

definition Clean :: "string \<Rightarrow> string" where
  "Clean p = (if p = [] then ''.'' else unsplit (IsAbs p) (clean_comps (IsAbs p) p))"

definition Join :: "string list \<Rightarrow> string" where
  "Join es =
     (let rest = dropWhile (\<lambda>e. e = []) es
      in if rest = [] then [] else Clean (join_with CHR ''/'' rest))"

definition Dir :: "string \<Rightarrow> string" where
  "Dir p = Clean (rev (dropWhile (\<lambda>c. c \<noteq> CHR ''/'') (rev p)))"

definition strip_slashes :: "string \<Rightarrow> string" where
  "strip_slashes p = rev (dropWhile (\<lambda>c. c = CHR ''/'') (rev p))"

definition Base :: "string \<Rightarrow> string" where
  "Base p =
     (if p = [] then ''.''
      else
        (let b = rev (takeWhile (\<lambda>c. c \<noteq> CHR ''/'') (rev (strip_slashes p)))
         in if b = [] then ''/'' else b))"

section \<open>Normal forms\<close>

text \<open>
  The component lists \<open>Clean\<close> produces: plain names, after leading \<open>..\<close> components
  when the path is relative.
\<close>

definition plain :: "string \<Rightarrow> bool" where
  "plain c \<longleftrightarrow> c \<noteq> [] \<and> c \<noteq> ''.'' \<and> CHR ''/'' \<notin> set c"

fun normal :: "bool \<Rightarrow> string list \<Rightarrow> bool" where
  "normal rooted [] = True"
| "normal rooted (c # cs) =
     (plain c \<and> (if c = ''..'' then \<not> rooted \<and> normal rooted cs
                 else ''..'' \<notin> set cs \<and> normal rooted cs))"

lemma normal_plain: "normal r cs \<Longrightarrow> c \<in> set cs \<Longrightarrow> plain c"
  by (induction cs) (auto split: if_splits)

lemma normal_no_slash: "normal r cs \<Longrightarrow> \<forall>c \<in> set cs. CHR ''/'' \<notin> set c"
  by (auto dest: normal_plain simp: plain_def)

lemma normal_snoc:
  "normal r (cs @ [c]) \<longleftrightarrow>
     normal r cs \<and> plain c \<and> (c = ''..'' \<longrightarrow> \<not> r \<and> set cs \<subseteq> {''..''})"
  by (induction cs) auto

lemma normal_rev_step:
  assumes "normal r (rev st)" and "CHR ''/'' \<notin> set c"
  shows "normal r (rev (clean_step r st c))"
proof (cases st)
  case Nil
  with assms show ?thesis by (auto simp: plain_def)
next
  case (Cons d rest)
  have "d = ''..'' \<Longrightarrow> set rest \<subseteq> {''..''} \<and> \<not> r"
    using assms(1) Cons by (simp add: normal_snoc)
  with assms Cons show ?thesis
    by (auto simp: normal_snoc plain_def simp del: append_assoc)
qed

lemma normal_foldl:
  assumes "normal r (rev st)" and "\<forall>c \<in> set cs. CHR ''/'' \<notin> set c"
  shows "normal r (rev (foldl (clean_step r) st cs))"
  using assms
proof (induction cs arbitrary: st)
  case (Cons c cs)
  then have "normal r (rev (clean_step r st c))" by (simp add: normal_rev_step del: clean_step.simps)
  with Cons show ?case by (simp del: clean_step.simps)
qed simp

lemma normal_clean_comps: "normal r (clean_comps r p)"
  unfolding clean_comps_def by (rule normal_foldl) (auto dest: Split_no_sep)

lemma clean_step_normal:
  assumes "normal r (rev st @ [c])"
  shows "clean_step r st c = c # st"
  using assms by (cases st) (auto simp: normal_snoc plain_def simp del: append_assoc)

lemma normal_prefix: "normal r (xs @ ys) \<Longrightarrow> normal r xs"
  by (induction xs) (auto split: if_splits)

lemma foldl_normal:
  "normal r (rev st @ cs) \<Longrightarrow> foldl (clean_step r) st cs = rev cs @ st"
proof (induction cs arbitrary: st)
  case Nil
  then show ?case by simp
next
  case (Cons c cs)
  then have "normal r ((rev st @ [c]) @ cs)" by simp
  then have "clean_step r st c = c # st" by (rule clean_step_normal [OF normal_prefix])
  with Cons show ?case by (simp del: clean_step.simps)
qed

lemma IsAbs_Cons [simp]: "IsAbs (c # cs) \<longleftrightarrow> c = CHR ''/''" "\<not> IsAbs []"
  by (auto simp: IsAbs_def HasPrefix_def)

lemma join_with_plain_head:
  assumes "cs \<noteq> []" and "plain (hd cs)"
  shows "join_with CHR ''/'' cs \<noteq> []" and "\<not> IsAbs (join_with CHR ''/'' cs)"
proof -
  obtain x xs y ys where cs: "cs = (y # ys) # xs" and "y \<noteq> CHR ''/''"
    using assms by (cases cs; cases "hd cs") (auto simp: plain_def)
  then show "join_with CHR ''/'' cs \<noteq> []" and "\<not> IsAbs (join_with CHR ''/'' cs)"
    by (simp_all add: join_with_head)
qed

lemma clean_comps_unsplit:
  assumes "normal r cs"
  shows "unsplit r cs \<noteq> []" and "IsAbs (unsplit r cs) = r" and "clean_comps r (unsplit r cs) = cs"
proof -
  have hd: "cs \<noteq> [] \<Longrightarrow> plain (hd cs)" using normal_plain [OF assms] by simp
  show "unsplit r cs \<noteq> []" "IsAbs (unsplit r cs) = r"
    using hd join_with_plain_head [of cs] by (auto simp: unsplit_def)
  have fold: "foldl (clean_step r) [] cs = rev cs"
    using foldl_normal [of r "[]" cs] assms by simp
  show "clean_comps r (unsplit r cs) = cs"
  proof (cases "cs = []")
    case True
    then show ?thesis by (cases r) (simp_all add: clean_comps_def unsplit_def)
  next
    case False
    then have "Split (join_with CHR ''/'' cs) CHR ''/'' = cs"
      using normal_no_slash [OF assms] by (simp add: Split_join_with)
    with False fold show ?thesis
      by (cases r) (simp_all add: clean_comps_def unsplit_def)
  qed
qed

text \<open>Cleaning a normal form changes nothing, so \<open>Clean\<close> is idempotent.\<close>

lemma Clean_unsplit: "normal r cs \<Longrightarrow> Clean (unsplit r cs) = unsplit r cs"
  by (simp add: Clean_def clean_comps_unsplit)

lemma Clean_normal: "\<exists>cs. normal (IsAbs p) cs \<and> Clean p = unsplit (IsAbs p) cs"
proof (cases "p = []")
  case True
  then have "Clean p = unsplit (IsAbs p) []" by (simp add: Clean_def unsplit_def)
  then show ?thesis by (auto intro: exI [of _ "[]"])
next
  case False
  then have "Clean p = unsplit (IsAbs p) (clean_comps (IsAbs p) p)" by (simp add: Clean_def)
  then show ?thesis using normal_clean_comps by blast
qed

lemma Clean_idem [simp]: "Clean (Clean p) = Clean p"
  using Clean_normal [of p] Clean_unsplit by force

lemma IsAbs_Clean [simp]: "IsAbs (Clean p) = IsAbs p"
  using Clean_normal [of p] clean_comps_unsplit(2) by force

lemma Clean_not_Nil [simp]: "Clean p \<noteq> []"
  using Clean_normal [of p] clean_comps_unsplit(1) by force

end
