(* ===== verification/Ssh_Config.thy ===== *)
theory Ssh_Config
  imports Go_Error Go_Int Go_Path
begin

text \<open>
  ssh_config.go, the configuration part: reading the file, looking an option up with its
  default, the dial timeout, agent forwarding, the address to connect to and the expansion
  of a leading \<open>~/\<close>.

  The parsed file belongs to the package github.com/kevinburke/ssh_config, which is not part
  of the repository: a configuration is known through \<open>Get\<close> (\<open>Config.Get\<close>), \<open>Default\<close>
  (\<open>ssh_config.Default\<close>) and \<open>Hosts\<close> (the patterns of every Host stanza, as their
  \<open>String\<close> method prints them). The process environment is a record of the calls the
  code makes.
\<close>

record sshConfig =
  Get :: "string \<Rightarrow> string \<Rightarrow> err + string"
  Default :: "string \<Rightarrow> string"
  Hosts :: "string list list"

record os_env =
  UserHomeDir :: "err + string"
  Open :: "string \<Rightarrow> err + string"
  Decode :: "string \<Rightarrow> err + sshConfig"

section \<open>Home directory, paths and the configuration file\<close>

text \<open>\<open>homeDirOnce\<close> caches the first result, so every call sees the same one.\<close>

definition initHomeDir :: "os_env \<Rightarrow> err + string" where
  "initHomeDir env =
     (case UserHomeDir env of
        Inl e \<Rightarrow> Inl (Wrapf ''iago: failed to initialize home directory: %w'' [] e)
      | Inr h \<Rightarrow> Inr h)"

definition expand :: "string \<Rightarrow> string \<Rightarrow> string" where
  "expand homeDir path =
     (if 2 \<le> length path \<and> take 2 path = ''~/'' then Join [homeDir, drop 2 path] else path)"

definition ParseSSHConfig :: "os_env \<Rightarrow> string \<Rightarrow> err + sshConfig" where
  "ParseSSHConfig env configFile =
     (if configFile = [] then Inl (Errorf ''iago: no ssh config file provided'' [])
      else
        (case initHomeDir env of
           Inl e \<Rightarrow> Inl e
         | Inr homeDir \<Rightarrow>
             (case Open env (expand homeDir configFile) of
                Inl e \<Rightarrow> Inl (Wrapf ''iago: failed to open ssh config file: %w'' [] e)
              | Inr fd \<Rightarrow>
                  (case Decode env fd of
                     Inl e \<Rightarrow> Inl (Wrapf ''iago: failed to decode ssh config file: %w'' [] e)
                   | Inr cfg \<Rightarrow> Inr cfg))))"

definition resolveSSHConfigFile :: "os_env \<Rightarrow> string \<Rightarrow> err + string" where
  "resolveSSHConfigFile env sshConfigFile =
     (if sshConfigFile \<noteq> [] then Inr sshConfigFile
      else
        (case initHomeDir env of
           Inl e \<Rightarrow> Inl e
         | Inr homeDir \<Rightarrow> Inr (Join [homeDir, ''.ssh'', ''config''])))"

section \<open>Options\<close>

definition get :: "sshConfig \<Rightarrow> string \<Rightarrow> string \<Rightarrow> err + string" where
  "get cw alias key =
     (case Get cw alias key of
        Inl e \<Rightarrow> Inl (Wrapf ''iago: failed to get %s for %s: %w'' [key, alias] e)
      | Inr val \<Rightarrow> Inr (if val = [] then Default cw key else val))"

definition Second :: int where "Second = 1000000000"

definition connectTimeout :: "int \<Rightarrow> sshConfig \<Rightarrow> string \<Rightarrow> err + int" where
  "connectTimeout ConnectTimeout cw hostAlias =
     (case get cw hostAlias ''ConnectTimeout'' of
        Inl e \<Rightarrow> Inl e
      | Inr val \<Rightarrow>
          (let v = TrimSpace (ToLower val);
               invalid = Errorf ''iago: invalid ConnectTimeout for %s: %q'' [hostAlias, v]
           in if v = [] \<or> v = ''none'' then Inr ConnectTimeout
              else
                (case Atoi v of
                   None \<Rightarrow> Inl invalid
                 | Some seconds \<Rightarrow>
                     if seconds < 0 then Inl invalid else Inr (wrap_int (seconds * Second)))))"

definition forwardAgent :: "sshConfig \<Rightarrow> string \<Rightarrow> err + bool" where
  "forwardAgent cw hostAlias =
     (case get cw hostAlias ''ForwardAgent'' of
        Inl e \<Rightarrow> Inl e
      | Inr val \<Rightarrow> Inr (EqualFold (TrimSpace val) ''yes''))"

definition JoinHostPort :: "string \<Rightarrow> string \<Rightarrow> string" where
  "JoinHostPort host port =
     (if CHR '':'' \<in> set host then ''['' @ host @ '']:'' @ port else host @ '':'' @ port)"

definition ConnectAddr :: "sshConfig \<Rightarrow> string \<Rightarrow> string" where
  "ConnectAddr cw hostAlias =
     (case get cw hostAlias ''Hostname'' of
        Inl e \<Rightarrow> []
      | Inr h \<Rightarrow>
          (let hostname = ReplaceAll (if h = [] then hostAlias else h) ''%h'' hostAlias
           in (case get cw hostAlias ''Port'' of
                 Inl e \<Rightarrow> []
               | Inr port \<Rightarrow> JoinHostPort hostname port)))"

section \<open>Lemmas\<close>

lemma get_Inr_iff:
  "get cw a k = Inr v \<longleftrightarrow> (\<exists>w. Get cw a k = Inr w \<and> v = (if w = [] then Default cw k else w))"
  by (auto simp: get_def split: sum.splits)

lemma ToLower_append [simp]: "ToLower (s @ t) = ToLower s @ ToLower t"
  by (simp add: ToLower_def)

lemma ToLower_digits: "list_all is_digit ds \<Longrightarrow> ToLower ds = ds"
proof (induction ds)
  case (Cons c ds)
  then have "(of_char c :: int) \<le> 57" by (simp add: is_digit_def)
  then have "of_char c \<le> (57 :: nat)"
    using of_nat_of_char [of c, where 'a = int] by linarith
  with Cons show ?case by (simp add: ToLower_def lower_char_def)
qed (simp add: ToLower_def)

text \<open>Text made of digits and letters starts and ends with no white space.\<close>

lemma space_len_digit:
  assumes "is_digit c"
  shows "space_len space_runes (c # cs) = 0" and "space_len (map rev space_runes) (c # cs) = 0"
proof -
  have "c \<notin> set (map hd space_runes)" "c \<notin> set (map last space_runes)"
    using assms by (auto simp: space_runes_def is_digit_def)
  then show "space_len space_runes (c # cs) = 0" "space_len (map rev space_runes) (c # cs) = 0"
    by (auto simp: space_len_def space_runes_def HasPrefix_def)
qed

lemma trimmed_digits: "ds \<noteq> [] \<Longrightarrow> list_all is_digit ds \<Longrightarrow> trimmed ds"
proof -
  assume ds: "ds \<noteq> []" "list_all is_digit ds"
  then obtain c cs b bs where eqs: "ds = c # cs" "rev ds = b # bs"
    by (cases ds; cases "rev ds") auto
  then have "c \<in> set ds" "b \<in> set ds"
    by (simp, metis list.set_intros(1) set_rev)
  then have "is_digit c" "is_digit b" using ds(2) by (auto simp: list_all_iff)
  with eqs show ?thesis by (simp add: trimmed_def space_len_digit)
qed

text \<open>
  What the timeout is when the option is a number: the duration in nanoseconds, reduced to
  64 bits.
\<close>

lemma connectTimeout_number:
  assumes "get cw a ''ConnectTimeout'' = Inr (show_nat n)" and "0 \<le> n" "n \<le> MaxInt"
  shows "connectTimeout d cw a = Inr (wrap_int (n * Second))"
proof -
  have ds: "list_all is_digit (show_nat n)" using assms(2) by (rule show_nat_digits)
  then have v: "TrimSpace (ToLower (show_nat n)) = show_nat n"
    by (simp add: ToLower_digits TrimSpace_trimmed trimmed_digits)
  have "show_nat n \<noteq> ''none''" using ds by (auto simp: is_digit_def)
  with assms ds v show ?thesis
    by (simp add: connectTimeout_def Let_def Atoi_digits)
qed

section \<open>Properties\<close>

text \<open>A \<open>ConnectTimeout\<close> of n seconds, written in decimal, is used as exactly n
  seconds as long as n does not exceed 9223372036, whatever the package default is.\<close>

theorem connectTimeout_seconds:
  assumes "get cw a ''ConnectTimeout'' = Inr (show_nat n)" and "0 \<le> n" "n \<le> 9223372036"
  shows "connectTimeout d cw a = Inr (n * Second)"
proof -
  have "in_int (n * Second)" using assms(2,3) by (simp add: in_int_def Second_def)
  with connectTimeout_number [OF assms(1,2)] assms(3) show ?thesis by simp
qed

definition timeout_config :: "string \<Rightarrow> sshConfig" where
  "timeout_config t =
     \<lparr>Get = (\<lambda>a k. Inr (if k = ''ConnectTimeout'' then t else [])), Default = (\<lambda>k. []), Hosts = []\<rparr>"

lemma get_timeout_config: "t \<noteq> [] \<Longrightarrow> get (timeout_config t) a ''ConnectTimeout'' = Inr t"
  by (simp add: get_def timeout_config_def)

lemma connectTimeout_seconds_witness:
  "connectTimeout 0 (timeout_config (show_nat 30)) ''h'' = Inr 30000000000"
  using connectTimeout_seconds [of "timeout_config (show_nat 30)" "''h''" 30 0]
  by (simp add: get_timeout_config Second_def)

text \<open>C35. From 9223372037 to 18446744073 seconds, which \<open>Atoi\<close> accepts and no check
  rejects, the multiplication by \<open>time.Second\<close> wraps around: the dial timeout is negative.\<close>

theorem connectTimeout_wraps:
  assumes "get cw a ''ConnectTimeout'' = Inr (show_nat n)" and "9223372037 \<le> n" "n \<le> 18446744073"
  shows "\<exists>t. connectTimeout d cw a = Inr t \<and> t = n * Second - 2 ^ 64 \<and> t < 0"
proof -
  have "wrap_int (n * Second) = wrap_int (n * Second - 2 ^ 64)"
    by (rule wrap_int_wrap [symmetric])
  also have "\<dots> = n * Second - 2 ^ 64"
    by (rule wrap_int_id) (use assms(2,3) in \<open>simp add: in_int_def Second_def\<close>)
  finally show ?thesis
    using connectTimeout_number [OF assms(1)] assms(2,3) by (simp add: Second_def)
qed

lemma connectTimeout_wraps_witness:
  "connectTimeout 0 (timeout_config (show_nat 9223372037)) ''h'' = Inr (- 9223372036709551616)"
  using connectTimeout_wraps [of "timeout_config (show_nat 9223372037)" "''h''" 9223372037 0]
  by (simp add: get_timeout_config Second_def)

lemma JoinHostPort_not_Nil [simp]: "JoinHostPort h p \<noteq> []"
  by (simp add: JoinHostPort_def)

text \<open>\<open>ConnectAddr\<close> answers the empty string exactly when one of the two options it
  needs cannot be read, Hostname before Port; no configured value makes it empty.\<close>

theorem ConnectAddr_empty:
  "ConnectAddr cw a = [] \<longleftrightarrow>
    (\<exists>e. get cw a ''Hostname'' = Inl e) \<or> (\<exists>e. get cw a ''Port'' = Inl e)"
  by (auto simp: ConnectAddr_def Let_def split: sum.splits)

lemma ReplaceAll_percent:
  "CHR ''%'' \<notin> set s \<Longrightarrow> ReplaceAll (s @ t) (CHR ''%'' # w) n = s @ ReplaceAll t (CHR ''%'' # w) n"
  by (induction s) (auto simp: HasPrefix_def)

lemma ReplaceAll_token:
  assumes "CHR ''%'' \<notin> set pre" "CHR ''%'' \<notin> set suf"
  shows "ReplaceAll (pre @ ''%h'' @ suf) ''%h'' alias = pre @ alias @ suf"
proof -
  have "ReplaceAll suf ''%h'' alias = suf" using ReplaceAll_percent [OF assms(2), of "[]"] by simp
  then show ?thesis using ReplaceAll_percent [OF assms(1)] by (simp add: HasPrefix_def)
qed

text \<open>The address is host:port, where the host is the alias when no Hostname is set and
  otherwise the Hostname with its %h token replaced by the alias; a host that contains a
  colon (an IPv6 address) is put in brackets.\<close>

theorem ConnectAddr_host:
  assumes "get cw a ''Hostname'' = Inr h" and "get cw a ''Port'' = Inr port"
    and "h = [] \<and> host = a \<and> CHR ''%'' \<notin> set a \<or>
      h = pre @ ''%h'' @ suf \<and> host = pre @ a @ suf \<and> CHR ''%'' \<notin> set (pre @ suf)"
  shows "ConnectAddr cw a =
    (if CHR '':'' \<in> set host then ''['' @ host @ '']'' else host) @ '':'' @ port"
proof -
  have "ReplaceAll (if h = [] then a else h) ''%h'' a = host"
    using assms(3) ReplaceAll_token [of pre suf a] ReplaceAll_percent [of a "[]"] by auto
  with assms(1,2) show ?thesis by (simp add: ConnectAddr_def Let_def JoinHostPort_def)
qed

definition addr_config :: "string \<Rightarrow> sshConfig" where
  "addr_config h =
     \<lparr>Get = (\<lambda>a k. Inr (if k = ''Hostname'' then h else [])),
      Default = (\<lambda>k. if k = ''Port'' then ''22'' else []), Hosts = []\<rparr>"

lemma ConnectAddr_host_witness:
  "ConnectAddr (addr_config ''%h.example.org'') ''bb1'' = ''bb1.example.org:22''"
  using ConnectAddr_host [of "addr_config ''%h.example.org''" "''bb1''" "''%h.example.org''" "''22''"
      "''bb1.example.org''" "[]" "''.example.org''"]
  by (simp add: addr_config_def get_def)

end
