(* ===== verification/Go_Glob.thy ===== *)
theory Go_Glob
  imports Go_Strings
begin

text \<open>
  \<open>filepath.Match\<close> of Go's standard library (on Unix), which \<open>hostAliases\<close> of
  ssh_config.go calls: scanning a pattern chunk by chunk, matching one chunk, and the
  backtracking over the text a star skips. A pattern error is \<open>None\<close>. Characters are
  decoded from UTF-8 as \<open>utf8.DecodeRuneInString\<close> does.
\<close>

section \<open>UTF-8\<close>

definition RuneError :: int where "RuneError = 65533"

definition cont_byte :: "int \<Rightarrow> bool" where
  "cont_byte b \<longleftrightarrow> 128 \<le> b \<and> b \<le> 191"

text \<open>The bounds of the second byte after a three-byte and a four-byte lead.\<close>

definition second_ok :: "int \<Rightarrow> int \<Rightarrow> bool" where
  "second_ok b0 b1 \<longleftrightarrow>
     (if b0 = 224 then 160 else if b0 = 240 then 144 else 128) \<le> b1 \<and>
     b1 \<le> (if b0 = 237 then 159 else if b0 = 244 then 143 else 191)"

text \<open>The character at the start of a string and how many bytes it takes.\<close>

definition decode_rune :: "string \<Rightarrow> int \<times> nat" where
  "decode_rune s =
     (case s of [] \<Rightarrow> (RuneError, 0)
      | c0 # cs \<Rightarrow>
          let b0 = of_char c0; bs = map of_char (take 3 cs); bad = (RuneError, 1) in
          if b0 < 128 then (b0, 1)
          else if 194 \<le> b0 \<and> b0 \<le> 223 then
            (case bs of
               b1 # _ \<Rightarrow> if cont_byte b1 then ((b0 - 192) * 64 + (b1 - 128), 2) else bad
             | _ \<Rightarrow> bad)
          else if 224 \<le> b0 \<and> b0 \<le> 239 then
            (case bs of
               b1 # b2 # _ \<Rightarrow>
                 if second_ok b0 b1 \<and> cont_byte b2
                 then ((b0 - 224) * 4096 + (b1 - 128) * 64 + (b2 - 128), 3) else bad
             | _ \<Rightarrow> bad)
          else if 240 \<le> b0 \<and> b0 \<le> 244 then
            (case bs of
               b1 # b2 # b3 # _ \<Rightarrow>
                 if second_ok b0 b1 \<and> cont_byte b2 \<and> cont_byte b3
                 then ((b0 - 240) * 262144 + (b1 - 128) * 4096 + (b2 - 128) * 64 + (b3 - 128), 4)
                 else bad
             | _ \<Rightarrow> bad)
          else bad)"

lemma decode_rune_size: "s \<noteq> [] \<Longrightarrow> 0 < snd (decode_rune s)"
  by (auto simp: decode_rune_def Let_def split: list.splits)

lemma decode_rune_ascii: "(of_char c :: int) < 128 \<Longrightarrow> decode_rune (c # cs) = (of_char c, 1)"
  by (simp add: decode_rune_def)

section \<open>One chunk\<close>

definition getEsc :: "string \<Rightarrow> (int \<times> string) option" where
  "getEsc chunk =
     (case chunk of
        [] \<Rightarrow> None
      | c # cs \<Rightarrow>
          if c = CHR ''-'' \<or> c = CHR '']'' then None
          else
            (let chunk' = (if c = CHR 0x5C then cs else chunk) in
             if chunk' = [] then None
             else
               (let (r, n) = decode_rune chunk'; nchunk = drop n chunk' in
                if (r = RuneError \<and> n = 1) \<or> nchunk = [] then None else Some (r, nchunk))))"

lemma getEsc_shorter: "getEsc chunk = Some (r, rest) \<Longrightarrow> length rest < length chunk"
proof -
  assume a: "getEsc chunk = Some (r, rest)"
  then obtain c cs where ch: "chunk = c # cs" by (cases chunk) (auto simp: getEsc_def)
  define chunk' where "chunk' = (if c = CHR 0x5C then cs else chunk)"
  from a ch have ne: "chunk' \<noteq> []" and rest: "rest = drop (snd (decode_rune chunk')) chunk'"
    by (auto simp: getEsc_def Let_def chunk'_def split: if_splits prod.splits)
  have "length chunk' \<le> length chunk" by (simp add: chunk'_def ch)
  with ne rest decode_rune_size [OF ne] show ?thesis by (cases chunk') auto
qed

text \<open>
  The ranges of a character class, up to its closing bracket; \<open>seen\<close> says that a range
  was read already, \<open>m\<close> that one of them holds \<open>r\<close>.
\<close>

function class_ranges :: "string \<Rightarrow> int \<Rightarrow> bool \<Rightarrow> bool \<Rightarrow> (bool \<times> string) option" where
  "class_ranges chunk r seen m =
     (if seen \<and> HasPrefix chunk '']'' then Some (m, drop 1 chunk)
      else
        (case getEsc chunk of
           None \<Rightarrow> None
         | Some (lo, ch) \<Rightarrow>
             if HasPrefix ch ''-'' then
               (case getEsc (drop 1 ch) of
                  None \<Rightarrow> None
                | Some (hi, ch') \<Rightarrow> class_ranges ch' r True (m \<or> (lo \<le> r \<and> r \<le> hi)))
             else class_ranges ch r True (m \<or> (lo \<le> r \<and> r \<le> lo))))"
  by pat_completeness auto
termination
  by (relation "measure (\<lambda>(chunk, r, seen, m). length chunk)")
    (auto dest!: getEsc_shorter)

declare class_ranges.simps [simp del]

lemma class_ranges_shorter:
  "class_ranges chunk r seen m = Some (b, rest) \<Longrightarrow> length rest \<le> length chunk"
proof (induction chunk r seen m arbitrary: rest rule: class_ranges.induct)
  case (1 chunk r seen m)
  show ?case
  proof (cases "seen \<and> HasPrefix chunk '']''")
    case True
    with "1.prems" show ?thesis by (subst (asm) class_ranges.simps) auto
  next
    case False
    with "1.prems" obtain lo ch where lo: "getEsc chunk = Some (lo, ch)"
      by (subst (asm) class_ranges.simps) (auto split: option.splits)
    note shorter = getEsc_shorter [OF lo]
    show ?thesis
    proof (cases "HasPrefix ch ''-''")
      case True
      with False lo "1.prems" obtain hi ch' where hi: "getEsc (drop 1 ch) = Some (hi, ch')"
        and rec: "class_ranges ch' r True (m \<or> (lo \<le> r \<and> r \<le> hi)) = Some (b, rest)"
        by (subst (asm) class_ranges.simps) (auto split: option.splits)
      have "length rest \<le> length ch'"
        by (rule "1.IH"(1) [OF False lo refl True hi refl rec])
      with getEsc_shorter [OF hi] shorter show ?thesis by simp
    next
      case no: False
      with False lo "1.prems" have "class_ranges ch r True (m \<or> (lo \<le> r \<and> r \<le> lo)) = Some (b, rest)"
        by (subst (asm) class_ranges.simps) (auto split: if_splits)
      then have "length rest \<le> length ch" by (rule "1.IH"(2) [OF False lo refl no])
      with shorter show ?thesis by simp
    qed
  qed
qed

text \<open>
  \<open>matchChunk\<close>: whether the chunk matches a prefix of the text, and the rest of the text.
\<close>

function matchChunk :: "string \<Rightarrow> string \<Rightarrow> bool \<Rightarrow> (bool \<times> string) option" where
  "matchChunk [] s failed = (if failed then Some (False, []) else Some (True, s))"
| "matchChunk (c # cs) s failed0 =
     (let failed = (failed0 \<or> s = []) in
      if c = CHR ''['' then
        (let (r, n) = (if failed then (0, 0) else decode_rune s);
             negated = HasPrefix cs ''^'';
             body = (if negated then drop 1 cs else cs)
         in (case class_ranges body r False False of
               None \<Rightarrow> None
             | Some (m, rest) \<Rightarrow> matchChunk rest (drop n s) (failed \<or> m = negated)))
      else if c = CHR ''?'' then
        (if failed then matchChunk cs s True
         else matchChunk cs (drop (snd (decode_rune s)) s) (hd s = CHR ''/''))
      else if c = CHR 0x5C then
        (case cs of
           [] \<Rightarrow> None
         | d # ds \<Rightarrow> if failed then matchChunk ds s True else matchChunk ds (tl s) (d \<noteq> hd s))
      else if failed then matchChunk cs s True
      else matchChunk cs (tl s) (c \<noteq> hd s))"
  by pat_completeness auto
termination
  by (relation "measure (\<lambda>(chunk, s, failed). length chunk)")
    (auto dest!: class_ranges_shorter split: if_splits)

section \<open>The whole pattern\<close>

text \<open>How many bytes the literal part of a pattern has before the next star.\<close>

fun chunk_len :: "string \<Rightarrow> bool \<Rightarrow> nat" where
  "chunk_len [] inrange = 0"
| "chunk_len (c # cs) inrange =
     (if c = CHR 0x5C then
        (case cs of [] \<Rightarrow> 1 | _ # cs' \<Rightarrow> 2 + chunk_len cs' inrange)
      else if c = CHR ''['' then Suc (chunk_len cs True)
      else if c = CHR '']'' then Suc (chunk_len cs False)
      else if c = CHR ''*'' \<and> \<not> inrange then 0
      else Suc (chunk_len cs inrange))"

definition scanChunk :: "string \<Rightarrow> bool \<times> string \<times> string" where
  "scanChunk pattern =
     (let p = dropWhile (\<lambda>c. c = CHR ''*'') pattern; n = chunk_len p False
      in (HasPrefix pattern ''*'', take n p, drop n p))"

lemma scanChunk_shorter: "pattern \<noteq> [] \<Longrightarrow> length (snd (snd (scanChunk pattern))) < length pattern"
proof -
  assume ne: "pattern \<noteq> []"
  define p where "p = dropWhile (\<lambda>c. c = CHR ''*'') pattern"
  have le: "length p \<le> length pattern" by (simp add: p_def length_dropWhile_le)
  show ?thesis
  proof (cases "hd pattern = CHR ''*''")
    case True
    with ne have "length p < length pattern"
      by (cases pattern) (auto simp: p_def less_Suc_eq_le length_dropWhile_le)
    then show ?thesis by (simp add: scanChunk_def Let_def flip: p_def)
  next
    case False
    with ne have "p = pattern" by (cases pattern) (auto simp: p_def)
    moreover have "0 < chunk_len p False"
      using ne False \<open>p = pattern\<close> by (cases pattern) (auto split: list.splits)
    ultimately show ?thesis using ne by (simp add: scanChunk_def Let_def flip: p_def)
  qed
qed

lemma scanChunk_rest:
  "(star, chunk, rest) = scanChunk pattern \<Longrightarrow> pattern \<noteq> [] \<Longrightarrow> length rest < length pattern"
  using scanChunk_shorter [of pattern] by (cases "scanChunk pattern") auto

text \<open>
  The texts a star may leave to the chunk after it, nearest first: it skips at least one
  byte and no separator.
\<close>

fun star_skips :: "string \<Rightarrow> string list" where
  "star_skips [] = []"
| "star_skips (c # cs) = (if c = CHR ''/'' then [] else cs # star_skips cs)"

text \<open>
  The first text among \<open>ss\<close> whose start the chunk matches (to its end, when it is the last
  chunk): \<open>None\<close> for a pattern error, \<open>Some None\<close> when there is none.
\<close>

fun star_search :: "string \<Rightarrow> bool \<Rightarrow> string list \<Rightarrow> string option option" where
  "star_search chunk last_chunk [] = Some None"
| "star_search chunk last_chunk (s # ss) =
     (case matchChunk chunk s False of
        None \<Rightarrow> None
      | Some (ok, t) \<Rightarrow>
          if ok \<and> (t = [] \<or> \<not> last_chunk) then Some (Some t)
          else star_search chunk last_chunk ss)"

text \<open>Whether the rest of a pattern is well formed, checked before a mismatch is reported.\<close>

function pattern_ok :: "string \<Rightarrow> bool" where
  "pattern_ok pattern =
     (if pattern = [] then True
      else
        (let (_, chunk, rest) = scanChunk pattern in
         matchChunk chunk [] False \<noteq> None \<and> pattern_ok rest))"
  by pat_completeness auto
termination
  by (relation "measure length") (auto intro: scanChunk_rest)

function Match :: "string \<Rightarrow> string \<Rightarrow> bool option" where
  "Match pattern name =
     (if pattern = [] then Some (name = [])
      else
        (let (star, chunk, rest) = scanChunk pattern in
         if star \<and> chunk = [] then Some (CHR ''/'' \<notin> set name)
         else
           (case matchChunk chunk name False of
              None \<Rightarrow> None
            | Some (ok, t) \<Rightarrow>
                if ok \<and> (t = [] \<or> rest \<noteq> []) then Match rest t
                else
                  (case (if star then star_search chunk (rest = []) (star_skips name)
                         else Some None) of
                     None \<Rightarrow> None
                   | Some (Some t') \<Rightarrow> Match rest t'
                   | Some None \<Rightarrow> if pattern_ok rest then Some False else None))))"
  by pat_completeness auto
termination
  by (relation "measure (\<lambda>(pattern, name). length pattern)") (auto intro: scanChunk_rest)

declare pattern_ok.simps [simp del] Match.simps [simp del]

end
