(* ===== verification/Host_Spec.thy ===== *)
theory Host_Spec
  imports Ssh_Config Go_Glob
begin

text \<open>
  ssh_config.go, the host specification part: splitting a specification into tokens, the
  numeric range \<open>PREFIX[lo-hi]SUFFIX\<close> (the regular expression \<open>hostRangeRE\<close> and
  \<open>expandHostToken\<close>), the glob over the aliases of the configuration file
  (\<open>hostAliases\<close>) and \<open>ParseHosts\<close>, which puts them together.
\<close>

section \<open>Tokens\<close>

fun trim_tokens :: "string list \<Rightarrow> string list" where
  "trim_tokens [] = []"
| "trim_tokens (p # ps) =
     (let t = TrimSpace p in if t \<noteq> [] then t # trim_tokens ps else trim_tokens ps)"

definition splitHostSpec :: "string \<Rightarrow> string list" where
  "splitHostSpec spec = trim_tokens (Split (TrimSpace spec) CHR '','')"

section \<open>The numeric range\<close>

text \<open>
  \<open>\[(\d+)-(\d+)\](.*)$\<close> at the start of a text: the bounds and the suffix. A dot matches
  everything but a newline, and the digits before the dash and before the bracket are all
  the digits there.
\<close>

definition range_tail :: "string \<Rightarrow> (string \<times> string \<times> string) option" where
  "range_tail s =
     (case s of
        [] \<Rightarrow> None
      | c # r \<Rightarrow>
          if c \<noteq> CHR ''['' then None
          else
            (let lo = takeWhile is_digit r in
             case dropWhile is_digit r of
               [] \<Rightarrow> None
             | d # r' \<Rightarrow>
                 if lo = [] \<or> d \<noteq> CHR ''-'' then None
                 else
                   (let hi = takeWhile is_digit r' in
                    case dropWhile is_digit r' of
                      [] \<Rightarrow> None
                    | e # suffix \<Rightarrow>
                        if hi = [] \<or> e \<noteq> CHR '']'' \<or> newline \<in> set suffix then None
                        else Some (lo, hi, suffix))))"

text \<open>\<open>^(.*)\<close> in front of it takes the longest prefix that lets the rest match.\<close>

fun range_split :: "string \<Rightarrow> (string \<times> string \<times> string \<times> string) option" where
  "range_split [] = None"
| "range_split (c # cs) =
     (case (if c = newline then None else range_split cs) of
        Some (prefix, lo, hi, suffix) \<Rightarrow> Some (c # prefix, lo, hi, suffix)
      | None \<Rightarrow>
          (case range_tail (c # cs) of
             None \<Rightarrow> None
           | Some (lo, hi, suffix) \<Rightarrow> Some ([], lo, hi, suffix)))"

text \<open>\<open>hostRangeRE.FindStringSubmatch\<close>: the whole match and the four groups.\<close>

type_synonym submatch = "string \<times> string \<times> string \<times> string \<times> string"

definition hostRangeRE :: "string \<Rightarrow> submatch option" where
  "hostRangeRE token =
     (case range_split token of
        None \<Rightarrow> None
      | Some (prefix, lo, hi, suffix) \<Rightarrow> Some (token, prefix, lo, hi, suffix))"

definition range_item :: "string \<Rightarrow> string \<Rightarrow> bool \<Rightarrow> nat \<Rightarrow> int \<Rightarrow> string" where
  "range_item prefix suffix hasLeadingZero width i =
     (if hasLeadingZero then prefix @ show_int_padded width i @ suffix
      else prefix @ show_int i @ suffix)"

text \<open>
  The loop of \<open>expandHostToken\<close>. Its counter is a 64-bit \<open>int\<close> and wraps around, so the
  loop need not end: \<open>None\<close> is the call that never returns.
\<close>

partial_function (option) range_loop ::
  "(int \<Rightarrow> string) \<Rightarrow> int \<Rightarrow> int \<Rightarrow> string list \<Rightarrow> string list option" where
  "range_loop item hi i out =
     (if i \<le> hi then range_loop item hi (wrap_int (i + 1)) (out @ [item i]) else Some out)"

declare range_loop.simps [code]

definition string_size :: int where "string_size = 16"

definition leadingZero :: "string \<Rightarrow> bool" where
  "leadingZero s \<longleftrightarrow> 1 < length s \<and> hd s = CHR ''0''"

definition bad_bounds :: "string \<Rightarrow> string \<Rightarrow> err" where
  "bad_bounds token s =
     Wrapf ''iago: malformed host range %q: invalid bounds: %w'' [token]
       (Wrapf ''strconv.Atoi: parsing %q: %w'' [s] (Sentinel ''value out of range''))"

fun expandHostToken :: "submatch \<Rightarrow> (err, string list) outcome" where
  "expandHostToken (token, prefix, loStr, hiStr, suffix) =
     (if ContainsAny prefix ''[]'' \<or> ContainsAny suffix ''[]''
      then Fail (Errorf ''iago: malformed host range %q: at most one [lo-hi] range per host is supported'' [token])
      else
        (case Atoi loStr of
           None \<Rightarrow> Fail (bad_bounds token loStr)
         | Some lo \<Rightarrow>
             (case Atoi hiStr of
                None \<Rightarrow> Fail (bad_bounds token hiStr)
              | Some hi \<Rightarrow>
                  if lo > hi
                  then Fail (Errorf ''iago: malformed host range %q: %d > %d'' [token, show_int lo, show_int hi])
                  else
                    (let hasLeadingZero = (leadingZero loStr \<or> leadingZero hiStr);
                         width = max (length loStr) (length hiStr)
                     in if make_ok string_size (wrap_int (wrap_int (hi - lo) + 1))
                        then of_loop (range_loop (range_item prefix suffix hasLeadingZero width) hi lo [])
                        else Panics))))"

section \<open>Globs over the configuration\<close>

fun stanza_aliases :: "string \<Rightarrow> string list \<Rightarrow> string list \<Rightarrow> err + string list" where
  "stanza_aliases pattern [] hosts = Inr hosts"
| "stanza_aliases pattern (alias # ps) hosts =
     (if ContainsAny alias ''*?![]'' then stanza_aliases pattern ps hosts
      else
        (case Match pattern alias of
           None \<Rightarrow> Inl (Wrapf ''iago: invalid glob pattern %q: %w'' [pattern] (Sentinel ''syntax error in pattern''))
         | Some matched \<Rightarrow> stanza_aliases pattern ps (if matched then hosts @ [alias] else hosts)))"

fun config_aliases :: "string \<Rightarrow> string list list \<Rightarrow> string list \<Rightarrow> err + string list" where
  "config_aliases pattern [] hosts = Inr hosts"
| "config_aliases pattern (h # hs) hosts =
     (case stanza_aliases pattern h hosts of
        Inl e \<Rightarrow> Inl e
      | Inr hosts' \<Rightarrow> config_aliases pattern hs hosts')"

definition hostAliases :: "sshConfig \<Rightarrow> string \<Rightarrow> err + string list" where
  "hostAliases cw pattern = config_aliases pattern (Hosts cw) []"

section \<open>ParseHosts\<close>

text \<open>
  The loop over the tokens carries the configuration once it was parsed (\<open>config\<close>, nil at
  first) and the name of its file.
\<close>

definition load_config :: "os_env \<Rightarrow> sshConfig option \<Rightarrow> string \<Rightarrow> err + sshConfig \<times> string" where
  "load_config env config configFile =
     (case config of
        Some cw \<Rightarrow> Inr (cw, configFile)
      | None \<Rightarrow>
          (case resolveSSHConfigFile env configFile of
             Inl e \<Rightarrow> Inl e
           | Inr file \<Rightarrow>
               (case ParseSSHConfig env file of Inl e \<Rightarrow> Inl e | Inr cw \<Rightarrow> Inr (cw, file))))"

fun parse_tokens ::
  "os_env \<Rightarrow> string list \<Rightarrow> sshConfig option \<Rightarrow> string \<Rightarrow> string list
     \<Rightarrow> (err, string list) outcome" where
  "parse_tokens env [] config configFile hosts = Ret hosts"
| "parse_tokens env (token # ts) config configFile hosts =
     (case hostRangeRE token of
        Some m \<Rightarrow>
          bind_outcome (expandHostToken m)
            (\<lambda>expanded. parse_tokens env ts config configFile (hosts @ expanded))
      | None \<Rightarrow>
          if ContainsAny token ''*?['' then
            (case load_config env config configFile of
               Inl e \<Rightarrow> Fail e
             | Inr (cw, file) \<Rightarrow>
                 (case hostAliases cw token of
                    Inl e \<Rightarrow> Fail e
                  | Inr matched \<Rightarrow> parse_tokens env ts (Some cw) file (hosts @ matched)))
          else parse_tokens env ts config configFile (hosts @ [token]))"

definition ParseHosts :: "os_env \<Rightarrow> string \<Rightarrow> string \<Rightarrow> (err, string list) outcome" where
  "ParseHosts env spec configFile = parse_tokens env (splitHostSpec spec) None configFile []"


section \<open>The regular expression\<close>

text \<open>What a match is: a prefix and a suffix on one line around a bracketed pair of numbers.\<close>

definition range_match :: "string \<Rightarrow> string \<Rightarrow> string \<Rightarrow> string \<Rightarrow> string \<Rightarrow> bool" where
  "range_match s prefix lo hi suffix \<longleftrightarrow>
     s = prefix @ CHR ''['' # lo @ CHR ''-'' # hi @ CHR '']'' # suffix \<and>
     lo \<noteq> [] \<and> list_all is_digit lo \<and> hi \<noteq> [] \<and> list_all is_digit hi \<and>
     newline \<notin> set prefix \<and> newline \<notin> set suffix"

lemma not_digit [simp]: "\<not> is_digit CHR '']''" "\<not> is_digit CHR ''[''" "\<not> is_digit CHR '',''"
  by (simp_all add: is_digit_def)

lemma range_tail_iff: "range_tail s = Some (lo, hi, suffix) \<longleftrightarrow> range_match s [] lo hi suffix"
proof
  assume a: "range_tail s = Some (lo, hi, suffix)"
  then obtain r where s: "s = CHR ''['' # r" by (auto simp: range_tail_def split: list.splits if_splits)
  with a obtain r' where r': "dropWhile is_digit r = CHR ''-'' # r'" and lo: "lo = takeWhile is_digit r"
    by (auto simp: range_tail_def Let_def split: list.splits if_splits)
  with a s have r'': "dropWhile is_digit r' = CHR '']'' # suffix" and hi: "hi = takeWhile is_digit r'"
    by (auto simp: range_tail_def Let_def split: list.splits if_splits)
  from r' lo have "r = lo @ CHR ''-'' # r'" by (metis takeWhile_dropWhile_id)
  moreover from r'' hi have "r' = hi @ CHR '']'' # suffix" by (metis takeWhile_dropWhile_id)
  moreover have "list_all is_digit lo" "list_all is_digit hi"
    using lo hi by (auto simp: list_all_iff dest: set_takeWhileD)
  moreover have "lo \<noteq> []" "hi \<noteq> []" "newline \<notin> set suffix"
    using a s r' r'' lo hi by (auto simp: range_tail_def Let_def split: if_splits)
  ultimately show "range_match s [] lo hi suffix" using s by (simp add: range_match_def)
next
  assume "range_match s [] lo hi suffix"
  then show "range_tail s = Some (lo, hi, suffix)"
    by (simp add: range_match_def range_tail_def list_all_iff
        takeWhile_append_stop dropWhile_append_stop)
qed

lemma range_match_Cons:
  "range_match (c # s) (c # prefix) lo hi suffix \<longleftrightarrow> c \<noteq> newline \<and> range_match s prefix lo hi suffix"
  by (auto simp: range_match_def)

lemma range_match_Cons_cases:
  assumes "range_match (c # s) prefix lo hi suffix"
  obtains "prefix = []" "range_tail (c # s) = Some (lo, hi, suffix)"
  | prefix' where "prefix = c # prefix'" "c \<noteq> newline" "range_match s prefix' lo hi suffix"
proof (cases prefix)
  case Nil
  with assms that(1) show ?thesis by (simp add: range_tail_iff)
next
  case (Cons d prefix')
  with assms have "d = c" by (simp add: range_match_def)
  with assms Cons that(2) show ?thesis by (simp add: range_match_Cons)
qed

lemma range_split_sound: "range_split s = Some (prefix, lo, hi, suffix) \<Longrightarrow> range_match s prefix lo hi suffix"
proof (induction s arbitrary: prefix)
  case Nil
  then show ?case by simp
next
  case (Cons c cs)
  then show ?case
    by (fastforce simp: range_match_Cons range_tail_iff split: option.splits if_splits)
qed

lemma range_split_longest:
  "range_match s prefix' lo' hi' suffix' \<Longrightarrow>
     \<exists>prefix lo hi suffix. range_split s = Some (prefix, lo, hi, suffix) \<and>
       length prefix' \<le> length prefix"
proof (induction s arbitrary: prefix')
  case Nil
  then show ?case by (simp add: range_match_def)
next
  case (Cons c cs)
  from Cons.prems show ?case
  proof (cases rule: range_match_Cons_cases)
    case 1
    then show ?thesis by (auto split: option.splits if_splits)
  next
    case (2 p)
    then obtain prefix lo hi suffix where
      "range_split cs = Some (prefix, lo, hi, suffix)" "length p \<le> length prefix"
      using Cons.IH by blast
    with 2 show ?thesis by simp
  qed
qed

lemma range_match_tail:
  assumes "range_match s p lo hi suffix"
  shows "range_tail (drop (length p) s) = Some (lo, hi, suffix)" and "p = take (length p) s"
  using assms by (simp_all add: range_tail_iff) (simp_all add: range_match_def)

lemma range_match_prefix_unique:
  assumes "range_match s p lo hi suffix" and "range_match s p' lo' hi' suffix'"
    and "length p = length p'"
  shows "p = p' \<and> lo = lo' \<and> hi = hi' \<and> suffix = suffix'"
  using range_match_tail [OF assms(1)] range_match_tail [OF assms(2)] assms(3) by auto

lemma range_split_no_bracket: "CHR ''['' \<notin> set s \<Longrightarrow> range_split s = None"
proof (rule ccontr)
  assume "CHR ''['' \<notin> set s" "range_split s \<noteq> None"
  then obtain p lo hi x where "range_split s = Some (p, lo, hi, x)" by fastforce
  then have "range_match s p lo hi x" by (rule range_split_sound)
  with \<open>CHR ''['' \<notin> set s\<close> show False by (simp add: range_match_def)
qed

text \<open>A token with a single opening bracket has at most one match.\<close>

lemma hostRangeRE_match:
  assumes m: "range_match token prefix lo hi suffix" and "CHR ''['' \<notin> set suffix"
  shows "hostRangeRE token = Some (token, prefix, lo, hi, suffix)"
proof -
  obtain p l h x where split: "range_split token = Some (p, l, h, x)" and le: "length prefix \<le> length p"
    using range_split_longest [OF m] by blast
  have m': "range_match token p l h x" using split by (rule range_split_sound)
  have "length p \<le> length prefix"
  proof (rule ccontr)
    assume gt: "\<not> length p \<le> length prefix"
    define rest where "rest = lo @ CHR ''-'' # hi @ CHR '']'' # suffix"
    have token: "token = prefix @ CHR ''['' # rest" "token = p @ CHR ''['' # l @ CHR ''-'' # h @ CHR '']'' # x"
      using m m' by (simp_all add: range_match_def rest_def)
    have "CHR ''['' \<notin> set rest"
      using assms by (auto simp: rest_def range_match_def list_all_iff)
    moreover have "token ! length p = CHR ''[''" using token(2) by simp
    moreover have "token ! length p = rest ! (length p - length prefix - 1)"
      using gt token(1) by (simp add: nth_append)
    moreover have "length p < length token" using token(2) by simp
    then have "length p - length prefix - 1 < length rest" using gt token(1) by simp
    ultimately show False by (metis nth_mem)
  qed
  with le m m' split show ?thesis
    using range_match_prefix_unique by (auto simp: hostRangeRE_def)
qed

section \<open>The loop\<close>

lemma in_int_Suc: "in_int i \<Longrightarrow> i < h \<Longrightarrow> in_int h \<Longrightarrow> in_int (i + 1)"
  by (simp add: in_int_def)

lemma range_loop_below_MaxInt:
  assumes "in_int i" and "hi < MaxInt" and "i \<le> hi + 1"
  shows "range_loop item hi i out = Some (out @ map item [i..hi])"
  using assms
proof (induction "nat (hi + 1 - i)" arbitrary: i out)
  case 0
  then show ?case by (subst range_loop.simps) simp
next
  case (Suc n)
  then have le: "i \<le> hi" by simp
  have nxt: "in_int (i + 1)" using Suc.prems le by (simp add: in_int_def)
  have "range_loop item hi (i + 1) (out @ [item i]) = Some ((out @ [item i]) @ map item [i + 1..hi])"
    by (rule Suc.hyps(1)) (use Suc.hyps(2) Suc.prems le nxt in auto)
  with le nxt show ?case by (subst range_loop.simps) (simp add: upto_rec1)
qed

text \<open>When the upper bound is the largest \<open>int\<close> the guard never fails.\<close>

lemma range_loop_MaxInt: "in_int i \<Longrightarrow> range_loop item MaxInt i out = None"
proof (rule ccontr)
  assume i: "in_int i" and "range_loop item MaxInt i out \<noteq> None"
  then obtain r where r: "range_loop item MaxInt i out = Some r" by blast
  have "hi = MaxInt \<longrightarrow> in_int i \<longrightarrow> False" if "range_loop item hi i out = Some r" for hi i out r
  proof (rule range_loop.raw_induct [where P = "\<lambda>item hi i out r. hi = MaxInt \<longrightarrow> in_int i \<longrightarrow> False", OF _ that])
    fix f item hi i out r
    assume IH: "\<And>item hi i out r. f item hi i out = Some r \<Longrightarrow> hi = MaxInt \<longrightarrow> in_int i \<longrightarrow> False"
      and eq: "(if i \<le> hi then f item hi (wrap_int (i + 1)) (out @ [item i]) else Some out) = Some r"
    show "hi = MaxInt \<longrightarrow> in_int i \<longrightarrow> False"
      using IH eq in_int_wrap_int [of "i + 1"] by (auto simp: in_int_def split: if_splits)
  qed
  with r i show False by blast
qed


section \<open>Expanding a range token\<close>

abbreviation range_width :: "string \<Rightarrow> string \<Rightarrow> nat" where
  "range_width lo hi \<equiv> max (length lo) (length hi)"

definition range_items :: "string \<Rightarrow> string \<Rightarrow> string \<Rightarrow> string \<Rightarrow> string list" where
  "range_items prefix lo hi suffix =
     map (range_item prefix suffix (leadingZero lo \<or> leadingZero hi) (range_width lo hi))
       [digits_val lo..digits_val hi]"

lemma ContainsAny_brackets: "\<not> ContainsAny s ''[]'' \<Longrightarrow> CHR ''['' \<notin> set s \<and> CHR '']'' \<notin> set s"
  by (auto simp: ContainsAny_def list_ex_iff)

lemma span_in_int:
  assumes "0 \<le> lo" "lo \<le> hi" "hi < MaxInt"
  shows "wrap_int (wrap_int (hi - lo) + 1) = hi - lo + 1"
  using assms by (simp add: in_int_def)

lemma expandHostToken_Ret:
  assumes m: "range_match token prefix lo hi suffix"
    and br: "\<not> ContainsAny prefix ''[]''" "\<not> ContainsAny suffix ''[]''"
    and le: "digits_val lo \<le> digits_val hi" and hi: "digits_val hi < MaxInt"
    and span: "digits_val hi - digits_val lo < 2 ^ 44"
  shows "expandHostToken (token, prefix, lo, hi, suffix) = Ret (range_items prefix lo hi suffix)"
proof -
  have ds: "lo \<noteq> []" "list_all is_digit lo" "hi \<noteq> []" "list_all is_digit hi"
    using m by (simp_all add: range_match_def)
  have nonneg: "0 \<le> digits_val lo" using ds(2) by (rule digits_val_nonneg)
  have atoi: "Atoi lo = Some (digits_val lo)" "Atoi hi = Some (digits_val hi)"
    using ds le hi by (simp_all add: Atoi_digits)
  have "make_ok string_size (wrap_int (wrap_int (digits_val hi - digits_val lo) + 1))"
    using le span by (simp add: span_in_int [OF nonneg le hi] make_ok_def string_size_def)
  moreover have "range_loop item (digits_val hi) (digits_val lo) [] =
      Some (map item [digits_val lo..digits_val hi])" for item
    using range_loop_below_MaxInt [of "digits_val lo" "digits_val hi" item "[]"] nonneg le hi
    by (simp add: in_int_def)
  ultimately show ?thesis
    using br atoi le by (simp add: Let_def range_items_def)
qed

lemma range_loop_diverges: "in_int lo \<Longrightarrow> range_loop item MaxInt lo [] = None"
  by (rule range_loop_MaxInt)

lemma expandHostToken_Diverges:
  assumes m: "range_match token prefix lo hi suffix"
    and br: "\<not> ContainsAny prefix ''[]''" "\<not> ContainsAny suffix ''[]''"
    and hi: "digits_val hi = MaxInt" and lo: "digits_val lo \<le> MaxInt" "MaxInt - digits_val lo < 2 ^ 44"
  shows "expandHostToken (token, prefix, lo, hi, suffix) = Diverges"
proof -
  have ds: "lo \<noteq> []" "list_all is_digit lo" "hi \<noteq> []" "list_all is_digit hi"
    using m by (simp_all add: range_match_def)
  have nonneg: "0 \<le> digits_val lo" using ds(2) by (rule digits_val_nonneg)
  have atoi: "Atoi lo = Some (digits_val lo)" "Atoi hi = Some MaxInt"
    using ds hi lo by (simp_all add: Atoi_digits)
  have "wrap_int (wrap_int (MaxInt - digits_val lo) + 1) = MaxInt - digits_val lo + 1"
    using lo nonneg by (simp add: in_int_def)
  then have "make_ok string_size (wrap_int (wrap_int (MaxInt - digits_val lo) + 1))"
    using lo by (simp add: make_ok_def string_size_def)
  moreover have "range_loop item MaxInt (digits_val lo) [] = None" for item
    using nonneg lo by (intro range_loop_diverges) (simp add: in_int_def)
  ultimately show ?thesis
    using br atoi lo by (simp add: Let_def del: MaxInt_eq)
qed

lemma expandHostToken_Panics:
  assumes m: "range_match token prefix lo hi suffix"
    and br: "\<not> ContainsAny prefix ''[]''" "\<not> ContainsAny suffix ''[]''"
    and hi: "digits_val hi \<le> MaxInt" and span: "2 ^ 44 \<le> digits_val hi - digits_val lo"
  shows "expandHostToken (token, prefix, lo, hi, suffix) = Panics"
proof -
  have ds: "lo \<noteq> []" "list_all is_digit lo" "hi \<noteq> []" "list_all is_digit hi"
    using m by (simp_all add: range_match_def)
  have nonneg: "0 \<le> digits_val lo" using ds(2) by (rule digits_val_nonneg)
  have atoi: "Atoi lo = Some (digits_val lo)" "Atoi hi = Some (digits_val hi)"
    using ds hi span by (simp_all add: Atoi_digits)
  define n where "n = digits_val hi - digits_val lo"
  have "in_int n" using nonneg hi span by (simp add: n_def in_int_def)
  then have "wrap_int (wrap_int n + 1) = (if n = MaxInt then MinInt else n + 1)"
    using wrap_int_Suc_MaxInt span by (auto simp: in_int_def n_def)
  then have "\<not> make_ok string_size (wrap_int (wrap_int n + 1))"
    using span by (simp add: make_ok_def string_size_def n_def)
  moreover have "digits_val lo \<le> digits_val hi" using span by simp
  ultimately show ?thesis
    using br atoi by (simp add: Let_def flip: n_def)
qed

lemma expandHostToken_reversed:
  assumes m: "range_match token prefix lo hi suffix"
    and br: "\<not> ContainsAny prefix ''[]''" "\<not> ContainsAny suffix ''[]''"
    and hi: "digits_val lo \<le> MaxInt" and rev: "digits_val hi < digits_val lo"
  shows "expandHostToken (token, prefix, lo, hi, suffix) =
    Fail (Errorf ''iago: malformed host range %q: %d > %d''
      [token, show_int (digits_val lo), show_int (digits_val hi)])"
  using assms by (simp add: range_match_def Atoi_digits)

section \<open>Tokens of a specification\<close>

lemma trim_tokens_append [simp]: "trim_tokens (ps @ qs) = trim_tokens ps @ trim_tokens qs"
  by (induction ps) (simp_all add: Let_def)

lemma trim_tokens_trimmed: "\<forall>t \<in> set ts. t \<noteq> [] \<and> trimmed t \<Longrightarrow> trim_tokens ts = ts"
  by (induction ts) (simp_all add: TrimSpace_trimmed)

lemma splitHostSpec_join:
  assumes "ts \<noteq> []" and "\<forall>t \<in> set ts. t \<noteq> [] \<and> trimmed t \<and> CHR '','' \<notin> set t"
    and "trimmed (join_with CHR '','' ts)"
  shows "splitHostSpec (join_with CHR '','' ts) = ts"
  using assms by (simp add: splitHostSpec_def TrimSpace_trimmed Split_join_with trim_tokens_trimmed)

lemma splitHostSpec_single:
  "t \<noteq> [] \<Longrightarrow> trimmed t \<Longrightarrow> CHR '','' \<notin> set t \<Longrightarrow> splitHostSpec t = [t]"
  using splitHostSpec_join [of "[t]"] by simp

lemma splitHostSpec_no_comma: "t \<in> set (splitHostSpec spec) \<Longrightarrow> t \<noteq> [] \<and> CHR '','' \<notin> set t"
proof -
  have "t \<in> set (trim_tokens ps) \<Longrightarrow> t \<noteq> [] \<and> (\<exists>p \<in> set ps. t = TrimSpace p)" for ps
    by (induction ps) (auto simp: Let_def split: if_splits)
  then show "t \<in> set (splitHostSpec spec) \<Longrightarrow> t \<noteq> [] \<and> CHR '','' \<notin> set t"
    unfolding splitHostSpec_def using Split_no_sep set_TrimSpace by blast
qed

section \<open>Globs\<close>

definition wildcard :: "string \<Rightarrow> bool" where
  "wildcard alias = ContainsAny alias ''*?![]''"

lemma stanza_aliases_Inr_iff:
  "stanza_aliases pattern ps hosts = Inr r \<longleftrightarrow>
     (\<forall>a \<in> set ps. \<not> wildcard a \<longrightarrow> Match pattern a \<noteq> None) \<and>
     r = hosts @ filter (\<lambda>a. \<not> wildcard a \<and> Match pattern a = Some True) ps"
  by (induction pattern ps hosts rule: stanza_aliases.induct)
    (auto simp: wildcard_def split: option.splits)

lemma stanza_aliases_append:
  "stanza_aliases pattern (ps @ qs) hosts =
     (case stanza_aliases pattern ps hosts of
        Inl e \<Rightarrow> Inl e | Inr hosts' \<Rightarrow> stanza_aliases pattern qs hosts')"
  by (induction pattern ps hosts rule: stanza_aliases.induct) (auto split: option.splits)

text \<open>The stanzas are read as one list of patterns.\<close>

lemma config_aliases_concat: "config_aliases pattern hs hosts = stanza_aliases pattern (concat hs) hosts"
  by (induction pattern hs hosts rule: config_aliases.induct)
    (simp_all add: stanza_aliases_append split: sum.splits)

lemma hostAliases_Inr_iff:
  "hostAliases cw pattern = Inr r \<longleftrightarrow>
     (\<forall>a \<in> set (concat (Hosts cw)). \<not> wildcard a \<longrightarrow> Match pattern a \<noteq> None) \<and>
     r = filter (\<lambda>a. \<not> wildcard a \<and> Match pattern a = Some True) (concat (Hosts cw))"
  by (simp only: hostAliases_def config_aliases_concat stanza_aliases_Inr_iff append_Nil)


section \<open>Facts for the properties\<close>

lemma show_int_nonneg: "0 \<le> i \<Longrightarrow> show_int i = show_nat i"
  by (simp add: show_int_def)

lemma range_item_inj:
  assumes "0 \<le> i" "0 \<le> j" and "range_item p s z w i = range_item p s z w j"
  shows "i = j"
proof -
  define f where "f = (\<lambda>i. if z then show_int_padded w i else show_int i)"
  have val: "0 \<le> i \<Longrightarrow> digits_val (f i) = i" for i
    by (simp add: f_def show_int_nonneg show_int_padded_nonneg digits_val_zeros)
  have "range_item p s z w i = p @ f i @ s" for i
    by (simp add: f_def range_item_def)
  with assms(3) have "f i = f j" by simp
  with val assms(1,2) show ?thesis by metis
qed

lemma distinct_range_items: "0 \<le> digits_val lo \<Longrightarrow> distinct (range_items p lo hi s)"
  by (auto simp: range_items_def distinct_map inj_on_def intro: range_item_inj)

lemma digits_val_bound: "list_all is_digit ds \<Longrightarrow> digits_val ds < 10 ^ length ds"
proof (induction ds rule: rev_induct)
  case (snoc c ds)
  then have "digits_val ds + 1 \<le> 10 ^ length ds" by simp
  moreover have "digit_val c \<le> 9" using snoc.prems by (simp add: digit_val_def is_digit_def)
  ultimately show ?case by simp
qed simp

lemma length_show_nat: "0 \<le> n \<Longrightarrow> n < 10 ^ k \<Longrightarrow> 0 < k \<Longrightarrow> length (show_nat n) \<le> k"
proof (induction n arbitrary: k rule: show_nat.induct)
  case (1 n)
  show ?case
  proof (cases "n < 10")
    case True
    with 1 show ?thesis by (subst show_nat.simps) simp
  next
    case False
    then obtain k' where k': "k = Suc k'" "0 < k'"
      using "1.prems" by (cases k; cases "k - 1") auto
    then have "n div 10 < 10 ^ k'" using "1.prems" by (simp add: div_less_iff_less_mult)
    with 1 False k' have "length (show_nat (n div 10)) \<le> k'" by simp
    with False k' show ?thesis by (subst show_nat.simps) simp
  qed
qed

lemma length_range_item_padded:
  assumes "list_all is_digit hi" "hi \<noteq> []" "0 \<le> i" "i \<le> digits_val hi" "length hi \<le> w"
  shows "length (range_item p s True w i) = length p + w + length s"
proof -
  have "i < 10 ^ length hi" using assms(4) digits_val_bound [OF assms(1)] by simp
  then have "length (show_nat i) \<le> length hi" using assms(2,3) by (simp add: length_show_nat)
  with assms show ?thesis by (simp add: range_item_def show_int_padded_nonneg)
qed

definition literal :: "string \<Rightarrow> bool" where
  "literal t \<longleftrightarrow> \<not> ContainsAny t ''*?[''"

definition globbed :: "string \<Rightarrow> bool" where
  "globbed t \<longleftrightarrow> hostRangeRE t = None \<and> ContainsAny t ''*?[''"

lemma hostRangeRE_literal: "literal t \<Longrightarrow> hostRangeRE t = None"
proof -
  assume "literal t"
  then have "CHR ''['' \<notin> set t" by (auto simp: literal_def ContainsAny_def list_ex_iff)
  then have "range_split t = None" by (rule range_split_no_bracket)
  then show ?thesis by (simp only: hostRangeRE_def option.case)
qed

lemma parse_tokens_range_token:
  assumes "hostRangeRE t = Some m" and "expandHostToken m = r"
  shows "parse_tokens env [t] c file [] = r"
  using assms by (cases r) simp_all

lemma ParseHosts_single_token:
  assumes "t \<noteq> []" "trimmed t" "CHR '','' \<notin> set t" "hostRangeRE t = Some m"
  shows "ParseHosts env t file = expandHostToken m"
  using parse_tokens_range_token [OF assms(4) refl] assms(1-3)
  by (simp add: ParseHosts_def splitHostSpec_single del: parse_tokens.simps)

lemma parse_tokens_literal:
  "\<forall>t \<in> set ts. literal t \<Longrightarrow> parse_tokens env ts c file hosts = Ret (hosts @ ts)"
proof (induction ts arbitrary: hosts)
  case (Cons t ts)
  then have "hostRangeRE t = None" "\<not> ContainsAny t ''*?[''"
    by (simp_all add: hostRangeRE_literal) (simp add: literal_def)
  with Cons show ?case by simp
qed simp

lemma parse_tokens_no_glob:
  "\<forall>t \<in> set ts. \<not> globbed t \<Longrightarrow>
     parse_tokens env ts c file hosts = parse_tokens env' ts c' file' hosts"
proof (induction ts arbitrary: hosts)
  case (Cons t ts)
  show ?case
  proof (cases "hostRangeRE t")
    case None
    with Cons.prems have "\<not> ContainsAny t ''*?[''" by (simp add: globbed_def)
    with None Cons show ?thesis by simp
  next
    case (Some m)
    with Cons show ?thesis by (cases "expandHostToken m") simp_all
  qed
qed simp

text \<open>
  The accumulated hosts stay in front of what the remaining tokens contribute, and without
  globs the tokens contribute independently of each other.
\<close>

lemma parse_tokens_acc:
  "parse_tokens env ts c cfg hosts =
     bind_outcome (parse_tokens env ts c cfg []) (\<lambda>r. Ret (hosts @ r))"
proof (induction ts arbitrary: c cfg hosts)
  case Nil
  then show ?case by simp
next
  case (Cons t ts)
  have acc: "parse_tokens env ts c cfg (hosts @ x) =
      bind_outcome (parse_tokens env ts c cfg x) (\<lambda>r. Ret (hosts @ r))" for c cfg x
    using Cons.IH [of c cfg "hosts @ x"] Cons.IH [of c cfg x] by (simp add: bind_outcome_assoc)
  show ?case
  proof (cases "hostRangeRE t")
    case (Some m)
    then show ?thesis by (simp add: acc bind_outcome_assoc)
  next
    case None
    then show ?thesis using acc [of _ _ "[t]"] by (simp add: acc split: sum.splits)
  qed
qed


section \<open>Properties\<close>

text \<open>A configuration and an environment for the concrete instances.\<close>

definition sample_config :: sshConfig where
  "sample_config =
     \<lparr>Get = (\<lambda>_ _. Inr []), Default = (\<lambda>_. []),
      Hosts = [[''bb1''], [''bb2''], [''bb*''], [''nebula'']]\<rparr>"

definition sample_env :: os_env where
  "sample_env =
     \<lparr>UserHomeDir = Inr ''/home/me'', Open = (\<lambda>f. Inr f), Decode = (\<lambda>fd. Inr sample_config)\<rparr>"

text \<open>
  C19. A specification that is one range token expands to its aliases, lower bound first,
  whatever the configuration file and the environment are, as long as the upper bound is
  below the largest \<open>int\<close> and the range has fewer than \<open>2 ^ 44\<close> elements.
\<close>

theorem ParseHosts_range:
  assumes "range_match token prefix lo hi suffix"
    and "\<not> ContainsAny prefix ''[]''" and "\<not> ContainsAny suffix ''[]''"
    and "trimmed token" and "CHR '','' \<notin> set token"
    and "digits_val lo \<le> digits_val hi" and "digits_val hi < MaxInt"
    and "digits_val hi - digits_val lo < 2 ^ 44"
  shows "ParseHosts env token configFile =
    Ret (map (range_item prefix suffix (leadingZero lo \<or> leadingZero hi) (max (length lo) (length hi)))
      [digits_val lo..digits_val hi])"
proof -
  have "token \<noteq> []" using assms(1) by (simp add: range_match_def)
  moreover have "hostRangeRE token = Some (token, prefix, lo, hi, suffix)"
    using assms(1,3) ContainsAny_brackets by (intro hostRangeRE_match) auto
  ultimately have "ParseHosts env token configFile = expandHostToken (token, prefix, lo, hi, suffix)"
    using assms(4,5) by (intro ParseHosts_single_token)
  also have "\<dots> = Ret (range_items prefix lo hi suffix)"
    using assms(1-3,6-8) by (rule expandHostToken_Ret)
  finally show ?thesis by (simp only: range_items_def)
qed

lemma ParseHosts_range_witness:
  "ParseHosts sample_env ''rack[08-11]-n'' [] = Ret [''rack08-n'', ''rack09-n'', ''rack10-n'', ''rack11-n'']"
proof -
  have h: "range_match ''rack[08-11]-n'' ''rack'' ''08'' ''11'' ''-n''"
    "\<not> ContainsAny ''rack'' ''[]''" "\<not> ContainsAny ''-n'' ''[]''" "trimmed ''rack[08-11]-n''"
    "CHR '','' \<notin> set ''rack[08-11]-n''"
    "digits_val ''08'' \<le> digits_val ''11''" "digits_val ''11'' < MaxInt"
    "digits_val ''11'' - digits_val ''08'' < 2 ^ 44"
    by code_simp+
  have "map (range_item ''rack'' ''-n'' (leadingZero ''08'' \<or> leadingZero ''11'')
      (max (length ''08'') (length ''11''))) [digits_val ''08''..digits_val ''11''] =
    [''rack08-n'', ''rack09-n'', ''rack10-n'', ''rack11-n'']"
    by code_simp
  with ParseHosts_range [OF h, of sample_env "[]"] show ?thesis by simp
qed

text \<open>
  C18. What \<open>expandHostToken\<close> does with a match of the range expression, on every branch: the
  errors in the order of the code's checks, the panic of \<open>make\<close> on a range of \<open>2 ^ 44\<close>
  elements or more, the loop that never ends when the upper bound is the largest \<open>int\<close>, and
  otherwise the list of aliases.
\<close>

theorem expandHostToken_spec:
  assumes "hostRangeRE token = Some (t, prefix, lo, hi, suffix)"
  shows "expandHostToken (t, prefix, lo, hi, suffix) =
    (if ContainsAny prefix ''[]'' \<or> ContainsAny suffix ''[]''
     then Fail (Errorf ''iago: malformed host range %q: at most one [lo-hi] range per host is supported'' [token])
     else if MaxInt < digits_val lo then Fail (bad_bounds token lo)
     else if MaxInt < digits_val hi then Fail (bad_bounds token hi)
     else if digits_val hi < digits_val lo
     then Fail (Errorf ''iago: malformed host range %q: %d > %d''
       [token, show_int (digits_val lo), show_int (digits_val hi)])
     else if 2 ^ 44 \<le> digits_val hi - digits_val lo then Panics
     else if digits_val hi = MaxInt then Diverges
     else Ret (range_items prefix lo hi suffix))"
proof -
  have t: "t = token" and m: "range_match token prefix lo hi suffix"
    using assms range_split_sound by (auto simp: hostRangeRE_def split: option.splits)
  have ds: "lo \<noteq> []" "list_all is_digit lo" "hi \<noteq> []" "list_all is_digit hi"
    using m by (simp_all add: range_match_def)
  note branches = expandHostToken_Ret [OF m] expandHostToken_Panics [OF m]
    expandHostToken_Diverges [OF m] expandHostToken_reversed [OF m]
  show ?thesis
  proof (cases "ContainsAny prefix ''[]'' \<or> ContainsAny suffix ''[]''")
    case True
    then show ?thesis by (simp add: t)
  next
    case False
    then have br: "\<not> ContainsAny prefix ''[]''" "\<not> ContainsAny suffix ''[]''" by simp_all
    consider "MaxInt < digits_val lo" | "digits_val lo \<le> MaxInt" "MaxInt < digits_val hi"
      | "digits_val lo \<le> MaxInt" "digits_val hi \<le> MaxInt" by linarith
    then show ?thesis
    proof cases
      case 3
      then show ?thesis
        using br branches by (simp add: t del: expandHostToken.simps)
    qed (use False ds in \<open>simp_all add: t Atoi_digits\<close>)
  qed
qed

lemma expandHostToken_spec_witness:
  "expandHostToken (''b[5-1]'', ''b'', ''5'', ''1'', []) =
     Fail (Errorf ''iago: malformed host range %q: %d > %d'' [''b[5-1]'', ''5'', ''1''])"
proof -
  have h: "hostRangeRE ''b[5-1]'' = Some (''b[5-1]'', ''b'', ''5'', ''1'', [])" by code_simp
  have "\<not> (ContainsAny ''b'' ''[]'' \<or> ContainsAny [] ''[]'')" "digits_val ''5'' = 5" "digits_val ''1'' = 1"
    "show_int 5 = ''5''" "show_int 1 = ''1''"
    by code_simp+
  with expandHostToken_spec [OF h] show ?thesis by (simp del: expandHostToken.simps)
qed

text \<open>
  The regular expression: a match of \<open>hostRangeRE\<close> splits the token around a bracketed
  pair of numbers, and no other such split has a longer prefix; a token without one is not
  matched.
\<close>

theorem hostRangeRE_greedy:
  "case hostRangeRE token of
     None \<Rightarrow> (\<nexists>p l h x. range_match token p l h x)
   | Some (t, prefix, lo, hi, suffix) \<Rightarrow>
       t = token \<and> range_match token prefix lo hi suffix \<and>
       (\<forall>p l h x. range_match token p l h x \<longrightarrow> length p \<le> length prefix)"
proof (cases "range_split token")
  case None
  then have "\<nexists>p l h x. range_match token p l h x"
    using range_split_longest by (metis not_Some_eq)
  with None show ?thesis by (simp add: hostRangeRE_def)
next
  case (Some r)
  obtain prefix lo hi suffix where r: "r = (prefix, lo, hi, suffix)" by (cases r) auto
  have "\<forall>p l h x. range_match token p l h x \<longrightarrow> length p \<le> length prefix"
    using range_split_longest Some r by fastforce
  moreover have "range_match token prefix lo hi suffix"
    using Some r range_split_sound by blast
  ultimately show ?thesis using Some r by (simp add: hostRangeRE_def)
qed

lemma hostRangeRE_greedy_witness:
  "range_match ''a[1-2]b[3-4]'' ''a[1-2]b'' ''3'' ''4'' [] \<and> length ''a'' \<le> length ''a[1-2]b''"
proof -
  have s: "hostRangeRE ''a[1-2]b[3-4]'' = Some (''a[1-2]b[3-4]'', ''a[1-2]b'', ''3'', ''4'', [])"
    by code_simp
  have "range_match ''a[1-2]b[3-4]'' ''a'' ''1'' ''2'' ''b[3-4]''" by code_simp
  with hostRangeRE_greedy [of "''a[1-2]b[3-4]''"] s show ?thesis by auto
qed


text \<open>
  An expansion never repeats an alias and has one per number of the range; when a bound is
  zero padded, all aliases have the same length.
\<close>

theorem range_aliases_distinct:
  assumes "hostRangeRE token = Some (t, prefix, lo, hi, suffix)"
    and "expandHostToken (t, prefix, lo, hi, suffix) = Ret aliases"
  shows "distinct aliases \<and> int (length aliases) = digits_val hi - digits_val lo + 1 \<and>
    (leadingZero lo \<or> leadingZero hi \<longrightarrow>
      (\<forall>a \<in> set aliases. length a = length prefix + max (length lo) (length hi) + length suffix))"
proof -
  have m: "range_match token prefix lo hi suffix"
    using assms(1) range_split_sound by (auto simp: hostRangeRE_def split: option.splits)
  then have ds: "list_all is_digit lo" "hi \<noteq> []" "list_all is_digit hi" and t: "lo \<noteq> []"
    by (simp_all add: range_match_def)
  have nonneg: "0 \<le> digits_val lo" using ds(1) by (rule digits_val_nonneg)
  have br: "\<not> ContainsAny prefix ''[]''" "\<not> ContainsAny suffix ''[]''"
    using assms(2) by (auto split: if_splits)
  have le: "digits_val lo \<le> MaxInt" "digits_val hi \<le> MaxInt" "digits_val lo \<le> digits_val hi"
    using assms(2) ds t br by (auto simp: Atoi_digits Let_def split: if_splits)
  note not_others = expandHostToken_Panics [OF m br le(2)] expandHostToken_Diverges [OF m br _ le(1)]
  have tt: "t = token" using assms(1) by (auto simp: hostRangeRE_def split: option.splits)
  have span: "digits_val hi - digits_val lo < 2 ^ 44" "digits_val hi < MaxInt"
    using assms(2) le not_others by (force simp: tt simp del: expandHostToken.simps)+
  have out: "aliases = range_items prefix lo hi suffix"
    using assms(2) expandHostToken_Ret [OF m br le(3) span(2,1)] by (simp add: tt)
  then have "distinct aliases" "int (length aliases) = digits_val hi - digits_val lo + 1"
    using nonneg le(3) by (simp_all add: distinct_range_items) (simp add: range_items_def)
  moreover have "\<forall>a \<in> set aliases. length a = length prefix + max (length lo) (length hi) + length suffix"
    if "leadingZero lo \<or> leadingZero hi"
    using that out ds nonneg by (auto simp: range_items_def intro: length_range_item_padded)
  ultimately show ?thesis by blast
qed

lemma range_aliases_distinct_witness:
  "distinct [''n08'', ''n09'', ''n10''] \<and> list_all (\<lambda>a. length a = 3) [''n08'', ''n09'', ''n10'']"
proof -
  have h: "hostRangeRE ''n[08-10]'' = Some (''n[08-10]'', ''n'', ''08'', ''10'', [])" by code_simp
  have e: "expandHostToken (''n[08-10]'', ''n'', ''08'', ''10'', []) = Ret [''n08'', ''n09'', ''n10'']"
    by code_simp
  have z: "leadingZero ''08'' \<or> leadingZero ''10''" by code_simp
  show ?thesis using range_aliases_distinct [OF h e] z by (simp add: list_all_iff)
qed


text \<open>
  A range of \<open>2 ^ 44\<close> elements or more makes \<open>ParseHosts\<close> panic: its size is used as
  the capacity of a slice unchecked.
\<close>

theorem ParseHosts_large_range_panics:
  "ParseHosts env ''wrk[1-99999999999999]'' configFile = Panics"
proof -
  let ?t = "''wrk[1-99999999999999]''"
  let ?m = "(?t, ''wrk'', ''1'', ''99999999999999'', [])"
  have h: "hostRangeRE ?t = Some ?m" by code_simp
  have m: "range_match ?t ''wrk'' ''1'' ''99999999999999'' []"
    and p: "trimmed ?t" "?t \<noteq> []" "CHR '','' \<notin> set ?t"
    by code_simp+
  have "expandHostToken ?m = Panics"
    by (rule expandHostToken_Panics [OF m]; code_simp)
  with ParseHosts_single_token [OF p(2,1,3) h] show ?thesis by simp
qed

text \<open>
  The configuration is consulted for globs only: without a glob token the result depends
  neither on the environment nor on the configuration file.
\<close>

theorem ParseHosts_config_only_for_globs:
  assumes "\<forall>t \<in> set (splitHostSpec spec). hostRangeRE t \<noteq> None \<or> \<not> ContainsAny t ''*?[''"
  shows "ParseHosts env spec configFile = ParseHosts env' spec configFile'"
proof -
  have "\<forall>t \<in> set (splitHostSpec spec). \<not> globbed t" using assms by (auto simp: globbed_def)
  then show ?thesis unfolding ParseHosts_def by (rule parse_tokens_no_glob)
qed

lemma ParseHosts_config_only_for_globs_witness:
  "ParseHosts sample_env ''a, wrk[1-2]'' [] =
     ParseHosts (sample_env\<lparr>UserHomeDir := Inl (Sentinel ''no home'')\<rparr>) ''a, wrk[1-2]'' ''c''"
proof -
  have "\<forall>t \<in> set (splitHostSpec ''a, wrk[1-2]''). hostRangeRE t \<noteq> None \<or> \<not> ContainsAny t ''*?[''"
    by code_simp
  then show ?thesis by (rule ParseHosts_config_only_for_globs)
qed

text \<open>
  Literal tokens are returned verbatim and in order.
\<close>

theorem ParseHosts_literals:
  assumes "ts \<noteq> []"
    and "\<forall>t \<in> set ts. t \<noteq> [] \<and> trimmed t \<and> CHR '','' \<notin> set t \<and> \<not> ContainsAny t ''*?[''"
    and "trimmed (join_with CHR '','' ts)"
  shows "ParseHosts env (join_with CHR '','' ts) configFile = Ret ts"
proof -
  have "\<forall>t \<in> set ts. literal t" using assms(2) by (simp add: literal_def)
  then show ?thesis
    using assms by (simp add: ParseHosts_def splitHostSpec_join parse_tokens_literal)
qed

lemma ParseHosts_literals_witness:
  "ParseHosts sample_env ''atlas,titan'' [] = Ret [''atlas'', ''titan'']"
proof -
  have "\<forall>t \<in> set [''atlas'', ''titan'']. t \<noteq> [] \<and> trimmed t \<and> CHR '','' \<notin> set t \<and> \<not> ContainsAny t ''*?[''"
    "trimmed (join_with CHR '','' [''atlas'', ''titan''])"
    by code_simp+
  from ParseHosts_literals [OF _ this, of sample_env "[]"] show ?thesis by simp
qed

text \<open>
  C28. \<open>hostAliases\<close> returns the aliases of the configuration that hold no wildcard character
  and match the pattern, in the order of the file; it fails exactly when the pattern is
  malformed against one of the aliases it is compared with.
\<close>

theorem hostAliases_spec:
  "hostAliases cw pattern =
     (if \<forall>a \<in> set (concat (Hosts cw)). \<not> ContainsAny a ''*?![]'' \<longrightarrow> Match pattern a \<noteq> None
      then Inr (filter (\<lambda>a. \<not> ContainsAny a ''*?![]'' \<and> Match pattern a = Some True) (concat (Hosts cw)))
      else Inl (Wrapf ''iago: invalid glob pattern %q: %w'' [pattern]
        (Sentinel ''syntax error in pattern'')))"
proof (cases "hostAliases cw pattern")
  case (Inr r)
  with hostAliases_Inr_iff [of cw pattern r] show ?thesis by (simp add: wildcard_def)
next
  case (Inl e)
  have "stanza_aliases pattern ps hosts = Inl e \<Longrightarrow>
      e = Wrapf ''iago: invalid glob pattern %q: %w'' [pattern] (Sentinel ''syntax error in pattern'')"
    for ps hosts
    by (induction pattern ps hosts rule: stanza_aliases.induct) (auto split: if_splits option.splits)
  with Inl have "e = Wrapf ''iago: invalid glob pattern %q: %w'' [pattern]
      (Sentinel ''syntax error in pattern'')"
    by (simp add: hostAliases_def config_aliases_concat)
  moreover have "\<not> (\<forall>a \<in> set (concat (Hosts cw)). \<not> ContainsAny a ''*?![]'' \<longrightarrow> Match pattern a \<noteq> None)"
    using Inl hostAliases_Inr_iff [of cw pattern] by (auto simp: wildcard_def)
  ultimately show ?thesis using Inl by simp
qed

lemma hostAliases_spec_witness: "hostAliases sample_config ''bb*'' = Inr [''bb1'', ''bb2'']"
proof -
  have "\<forall>a \<in> set (concat (Hosts sample_config)). \<not> ContainsAny a ''*?![]'' \<longrightarrow> Match ''bb*'' a \<noteq> None"
    by code_simp
  moreover have "filter (\<lambda>a. \<not> ContainsAny a ''*?![]'' \<and> Match ''bb*'' a = Some True)
      (concat (Hosts sample_config)) = [''bb1'', ''bb2'']"
    by code_simp
  ultimately show ?thesis using hostAliases_spec [of sample_config "''bb*''"] by simp
qed

end
