(* ===== verification/Group_Run.thy ===== *)
theory Group_Run
  imports Go_Error "HOL-Library.Multiset"
begin

text \<open>
  iago.go, running a task on a group: \<open>Group.Run\<close> as a step relation (one goroutine per
  host that runs the task and then sends its wrapped error over an unbuffered channel, and
  the caller that receives once per host and hands non-nil errors to the error handler),
  \<open>Collect\<close> on top of it, and the option list of a group.

  A task is a function of the host and of the state the closures share; the goroutines of
  \<open>Collect\<close> touch that state under a mutex only, so each of them is one atomic step. The
  error handler is a function of its own state that may panic (\<open>None\<close>).
\<close>

section \<open>The steps of Group.Run\<close>

datatype phase = Running | Sending error | Received

record ('s, 'c) run_state =
  phases :: "phase list"
  shared :: 's
  handler :: 'c
  received :: nat
  panicked :: bool

definition Run_init :: "'h list \<Rightarrow> 's \<Rightarrow> 'c \<Rightarrow> ('s, 'c) run_state" where
  "Run_init hosts s c =
     \<lparr>phases = replicate (length hosts) Running, shared = s, handler = c, received = 0,
      panicked = False\<rparr>"

inductive Run_step ::
  "('h \<Rightarrow> string) \<Rightarrow> 'h list \<Rightarrow> string \<Rightarrow> ('h \<Rightarrow> 's \<Rightarrow> error \<times> 's) \<Rightarrow> ('c \<Rightarrow> err \<Rightarrow> 'c option)
     \<Rightarrow> ('s, 'c) run_state \<Rightarrow> ('s, 'c) run_state \<Rightarrow> bool"
  for Name hosts name f handle where
  task: "i < length (phases st) \<Longrightarrow> phases st ! i = Running \<Longrightarrow> f (hosts ! i) (shared st) = (e, s') \<Longrightarrow>
    Run_step Name hosts name f handle st
      (st\<lparr>phases := (phases st)[i := Sending (wrapError (Name (hosts ! i)) name e)], shared := s'\<rparr>)"
| receive_nil: "i < length (phases st) \<Longrightarrow> phases st ! i = Sending None \<Longrightarrow>
    received st < length hosts \<Longrightarrow> \<not> panicked st \<Longrightarrow>
    Run_step Name hosts name f handle st
      (st\<lparr>phases := (phases st)[i := Received], received := Suc (received st)\<rparr>)"
| receive_err: "i < length (phases st) \<Longrightarrow> phases st ! i = Sending (Some e) \<Longrightarrow>
    received st < length hosts \<Longrightarrow> \<not> panicked st \<Longrightarrow> handle (handler st) e = Some c' \<Longrightarrow>
    Run_step Name hosts name f handle st
      (st\<lparr>phases := (phases st)[i := Received], received := Suc (received st), handler := c'\<rparr>)"
| receive_panic: "i < length (phases st) \<Longrightarrow> phases st ! i = Sending (Some e) \<Longrightarrow>
    received st < length hosts \<Longrightarrow> \<not> panicked st \<Longrightarrow> handle (handler st) e = None \<Longrightarrow>
    Run_step Name hosts name f handle st
      (st\<lparr>phases := (phases st)[i := Received], received := Suc (received st), panicked := True\<rparr>)"

text \<open>\<open>Run\<close> is over when every host was received from, or the handler panicked.\<close>

definition Run_done :: "'h list \<Rightarrow> ('s, 'c) run_state \<Rightarrow> bool" where
  "Run_done hosts st \<longleftrightarrow> received st = length hosts \<or> panicked st"

text \<open>How many goroutines were not received from yet.\<close>

definition open_count :: "phase list \<Rightarrow> nat" where
  "open_count ps = length (filter (\<lambda>p. p \<noteq> Received) ps)"

definition Run_inv :: "'h list \<Rightarrow> ('s, 'c) run_state \<Rightarrow> bool" where
  "Run_inv hosts st \<longleftrightarrow>
     length (phases st) = length hosts \<and>
     received st + open_count (phases st) = length hosts"

fun phase_weight :: "phase \<Rightarrow> nat" where
  "phase_weight Running = 2"
| "phase_weight (Sending _) = 1"
| "phase_weight Received = 0"

definition Run_weight :: "('s, 'c) run_state \<Rightarrow> nat" where
  "Run_weight st = sum_list (map phase_weight (phases st))"

lemma open_count_replicate [simp]: "open_count (replicate n Running) = n"
  by (induction n) (simp_all add: open_count_def)

lemma open_count_send [simp]:
  "i < length ps \<Longrightarrow> ps ! i = Running \<Longrightarrow> open_count (ps[i := Sending e]) = open_count ps"
  unfolding open_count_def
proof (induction ps arbitrary: i)
  case (Cons p ps)
  then show ?case by (cases i) auto
qed simp

lemma open_count_receive [simp]:
  "i < length ps \<Longrightarrow> ps ! i = Sending e \<Longrightarrow> open_count (ps[i := Received]) = open_count ps - 1"
  using filter_update_length [of i ps "\<lambda>p. p \<noteq> Received" Received] by (simp add: open_count_def)

lemma open_count_0: "open_count ps = 0 \<longleftrightarrow> (\<forall>i < length ps. ps ! i = Received)"
  by (simp add: open_count_def filter_empty_conv all_set_conv_all_nth)

lemma Run_inv_init [inv_intros]: "Run_inv hosts (Run_init hosts s c)"
  by (simp add: Run_inv_def Run_init_def)

lemma Run_step_inv: "Run_step Name hosts name f handle st st' \<Longrightarrow> Run_inv hosts st \<Longrightarrow> Run_inv hosts st'"
  by (induction rule: Run_step.induct)
    (auto simp: Run_inv_def)

lemma Run_step_weight: "Run_step Name hosts name f handle st st' \<Longrightarrow> Run_weight st' < Run_weight st"
  by (induction rule: Run_step.induct)
    (auto simp: Run_weight_def intro!: sum_list_update_less)

lemma Run_progress:
  assumes "Run_inv hosts st" and "\<not> Run_done hosts st"
  shows "\<exists>st'. Run_step Name hosts name f handle st st'"
proof -
  have "received st \<noteq> length hosts" "\<not> panicked st" using assms(2) by (simp_all add: Run_done_def)
  moreover from this(1) have "open_count (phases st) \<noteq> 0"
    using assms(1) by (auto simp: Run_inv_def)
  then obtain i where i: "i < length (phases st)" "phases st ! i \<noteq> Received"
    by (auto simp: open_count_0)
  moreover have "received st \<le> length hosts" using assms(1) by (simp add: Run_inv_def)
  ultimately have lt: "received st < length hosts" "\<not> panicked st" by simp_all
  show ?thesis
  proof (cases "phases st ! i")
    case Running
    obtain e s' where "f (hosts ! i) (shared st) = (e, s')" by (cases "f (hosts ! i) (shared st)")
    with i(1) Running show ?thesis by (blast intro: Run_step.task)
  next
    case (Sending e)
    show ?thesis
    proof (cases e)
      case None
      with Sending i lt show ?thesis by (blast intro: Run_step.receive_nil)
    next
      case (Some e')
      with Sending i lt show ?thesis
        by (cases "handle (handler st) e'") (blast intro: Run_step.receive_panic Run_step.receive_err)+
    qed
  next
    case Received
    with i show ?thesis by simp
  qed
qed

text \<open>Every schedule of a run ends, and ends with the run over.\<close>

interpretation run: live_system "Run_step Name hosts name f handle" "Run_inv hosts" Run_weight
    "Run_done hosts" for Name hosts name f handle
  by unfold_locales (auto intro: Run_step_inv Run_step_weight Run_progress)

section \<open>What the handler is given\<close>

text \<open>The error a goroutine still owes the handler, given what the tasks return.\<close>

fun owed :: "('h \<Rightarrow> string) \<Rightarrow> string \<Rightarrow> ('h \<Rightarrow> error) \<Rightarrow> 'h \<times> phase \<Rightarrow> error" where
  "owed Name name res (h, Running) = wrapError (Name h) name (res h)"
| "owed Name name res (h, Sending e) = e"
| "owed Name name res (h, Received) = None"

definition outstanding ::
  "('h \<Rightarrow> string) \<Rightarrow> 'h list \<Rightarrow> string \<Rightarrow> ('h \<Rightarrow> error) \<Rightarrow> ('s, 'c) run_state \<Rightarrow> err multiset" where
  "outstanding Name hosts name res st =
     mset (non_nil (map (owed Name name res) (zip hosts (phases st))))"

definition task_errors :: "('h \<Rightarrow> string) \<Rightarrow> 'h list \<Rightarrow> string \<Rightarrow> ('h \<Rightarrow> error) \<Rightarrow> err list" where
  "task_errors Name hosts name res = non_nil (map (\<lambda>h. wrapError (Name h) name (res h)) hosts)"

fun mset_err :: "error \<Rightarrow> err multiset" where
  "mset_err None = {#}"
| "mset_err (Some e) = {#e#}"

lemma mset_non_nil_update:
  "i < length xs \<Longrightarrow>
     mset (non_nil (xs[i := y])) + mset_err (xs ! i) = mset (non_nil xs) + mset_err y"
proof (induction xs arbitrary: i)
  case (Cons x xs)
  show ?case
  proof (cases i)
    case 0
    then show ?thesis by (cases x; cases y) simp_all
  next
    case (Suc j)
    with Cons show ?thesis by (cases x) (simp_all add: add.commute)
  qed
qed simp

lemma outstanding_update:
  assumes "i < length (phases st)" "length (phases st) = length hosts"
  shows "outstanding Name hosts name res (st\<lparr>phases := (phases st)[i := p]\<rparr>)
      + mset_err (owed Name name res (hosts ! i, phases st ! i))
    = outstanding Name hosts name res st + mset_err (owed Name name res (hosts ! i, p))"
proof -
  have "zip hosts ((phases st)[i := p]) = (zip hosts (phases st))[i := (hosts ! i, p)]"
    by (metis list_update_id zip_update)
  with assms mset_non_nil_update [of i "map (owed Name name res) (zip hosts (phases st))"
      "owed Name name res (hosts ! i, p)"]
  show ?thesis by (simp add: outstanding_def map_update)
qed

lemma outstanding_frame [simp]:
  "outstanding Name hosts name res (st\<lparr>shared := s\<rparr>) = outstanding Name hosts name res st"
  "outstanding Name hosts name res (st\<lparr>handler := c\<rparr>) = outstanding Name hosts name res st"
  "outstanding Name hosts name res (st\<lparr>received := n\<rparr>) = outstanding Name hosts name res st"
  by (simp_all add: outstanding_def)

context recording_handler
begin

text \<open>
  With a handler that records, what was recorded and what is still owed stay the same in
  sum: no error is lost, duplicated or invented, whatever the schedule.
\<close>

lemma run_conserves_errors:
  assumes "Run_step Name hosts name f (\<lambda>c e. Some (handle c e)) st st'"
    and "Run_inv hosts st" and "\<And>h s. h \<in> set hosts \<Longrightarrow> fst (f h s) = res h"
  shows "mset (recorded (handler st')) + outstanding Name hosts name res st' =
    mset (recorded (handler st)) + outstanding Name hosts name res st"
  using assms(1)
proof cases
  case (task i e s')
  have len: "length (phases st) = length hosts" using assms(2) by (simp add: Run_inv_def)
  with task have "hosts ! i \<in> set hosts" by simp
  then have "res (hosts ! i) = e" using assms(3) task(4) by (metis fst_conv)
  with outstanding_update [OF task(2) len, of Name name res
    "Sending (wrapError (Name (hosts ! i)) name e)"] task
  show ?thesis by simp
next
  case (receive_nil i)
  have len: "length (phases st) = length hosts" using assms(2) by (simp add: Run_inv_def)
  with outstanding_update [OF receive_nil(2) len, of Name name res Received] receive_nil show ?thesis by simp
next
  case (receive_err i e c')
  have len: "length (phases st) = length hosts" using assms(2) by (simp add: Run_inv_def)
  from receive_err have "recorded c' = recorded (handler st) @ [e]"
    by (simp flip: recorded_handle)
  with outstanding_update [OF receive_err(2) len, of Name name res Received] receive_err
  show ?thesis by simp
qed simp

lemma never_panics:
  "Run_step Name hosts name f (\<lambda>c e. Some (handle c e)) st st' \<Longrightarrow> panicked st' = panicked st"
  by (induction rule: Run_step.induct) auto

lemma run_conserves_errors_star:
  assumes "(Run_step Name hosts name f (\<lambda>c e. Some (handle c e)))\<^sup>*\<^sup>* st st'"
    and "Run_inv hosts st" and "\<And>h s. h \<in> set hosts \<Longrightarrow> fst (f h s) = res h"
  shows "mset (recorded (handler st')) + outstanding Name hosts name res st' =
      mset (recorded (handler st)) + outstanding Name hosts name res st \<and>
    panicked st' = panicked st"
  using assms(1)
proof (induction rule: rtranclp_induct)
  case base
  then show ?case by simp
next
  case (step u v)
  from step(1) assms(2) have "Run_inv hosts u" by (rule run.inv_steps)
  with step run_conserves_errors [OF step(2)] never_panics [OF step(2)] assms(3) show ?case by auto
qed

end

section \<open>Properties of Group.Run\<close>

lemma outstanding_init [simp]:
  "outstanding Name hosts name res (Run_init hosts s c) = mset (task_errors Name hosts name res)"
proof -
  have "map (owed Name name res) (zip hosts (replicate (length hosts) Running)) =
      map (\<lambda>h. wrapError (Name h) name (res h)) hosts"
    by (induction hosts) simp_all
  then show ?thesis by (simp add: outstanding_def task_errors_def Run_init_def)
qed

lemma Run_init_simps [simp]:
  "phases (Run_init hosts s c) = replicate (length hosts) Running"
  "shared (Run_init hosts s c) = s" "handler (Run_init hosts s c) = c"
  "received (Run_init hosts s c) = 0" "panicked (Run_init hosts s c) = False"
  by (simp_all add: Run_init_def)

lemma Run_weight_init [simp]: "Run_weight (Run_init hosts s c) = 2 * length hosts"
  by (simp add: Run_weight_def sum_list_replicate)

lemma all_received:
  assumes "Run_inv hosts st" and "received st = length hosts"
  shows "\<forall>i < length hosts. phases st ! i = Received"
  using assms open_count_0 [of "phases st"] by (simp add: Run_inv_def)

lemma outstanding_received:
  assumes "Run_inv hosts st" and "received st = length hosts"
  shows "outstanding Name hosts name res st = {#}"
proof -
  have "phases st = replicate (length hosts) Received"
    using all_received [OF assms] assms(1) by (intro nth_equalityI) (auto simp: Run_inv_def)
  moreover have "set (map (owed Name name res) (zip hosts (replicate (length hosts) Received))) \<subseteq> {None}"
    by (auto simp: set_zip)
  ultimately show ?thesis by (simp add: outstanding_def non_nil_Nil_iff)
qed

lemma task_errors_Nil_iff:
  "task_errors Name hosts name res = [] \<longleftrightarrow> (\<forall>h \<in> set hosts. res h = None)"
  by (auto simp: task_errors_def non_nil_Nil_iff image_subset_iff)

text \<open>C8. Whatever the tasks do and whatever the error handler does, panicking included,
  a run of \<open>Run\<close> makes at most two steps per host, and a state in which nothing can move
  is one in which \<open>Run\<close> is over: it never deadlocks and always returns or panics.\<close>

theorem Run_terminates:
  assumes "(Run_step Name hosts name f handle ^^ k) (Run_init hosts s c) st"
  shows "k \<le> 2 * length hosts \<and>
    (Run_done hosts st \<or> (\<exists>st'. Run_step Name hosts name f handle st st'))"
proof -
  from assms have "(Run_step Name hosts name f handle)\<^sup>*\<^sup>* (Run_init hosts s c) st"
    by (rule relpowp_imp_rtranclp)
  with Run_inv_init have "Run_inv hosts st" by (rule run.inv_steps [rotated])
  with run.run_length [OF Run_inv_init assms] show ?thesis by (auto dest: Run_progress)
qed

lemma Run_terminates_witness:
  "1 \<le> 2 * length [''h1'', ''h2''] \<and>
   (Run_done [''h1'', ''h2''] (Run_init [''h1'', ''h2''] () zero_Errors
        \<lparr>phases := [Sending None, Running]\<rparr>) \<or>
    (\<exists>st'. Run_step id [''h1'', ''h2''] ''t'' (\<lambda>h u. (None, u)) (\<lambda>c e. Some (Errors_Handle c e))
        (Run_init [''h1'', ''h2''] () zero_Errors \<lparr>phases := [Sending None, Running]\<rparr>) st'))"
proof -
  have "Run_step id [''h1'', ''h2''] ''t'' (\<lambda>h u. (None, u)) (\<lambda>c e. Some (Errors_Handle c e))
      (Run_init [''h1'', ''h2''] () zero_Errors)
      (Run_init [''h1'', ''h2''] () zero_Errors \<lparr>phases := [Sending None, Running]\<rparr>)"
    using Run_step.task [of 0 "Run_init [''h1'', ''h2''] () zero_Errors" "\<lambda>h u. (None, u)"
        "[''h1'', ''h2'']" None "()"]
    by (simp add: Run_init_def)
  then have "(Run_step id [''h1'', ''h2''] ''t'' (\<lambda>h u. (None, u)) (\<lambda>c e. Some (Errors_Handle c e)) ^^ 1)
      (Run_init [''h1'', ''h2''] () zero_Errors)
      (Run_init [''h1'', ''h2''] () zero_Errors \<lparr>phases := [Sending None, Running]\<rparr>)"
    by (simp only: relpowp_1)
  from Run_terminates [OF this] show ?thesis by simp
qed

lemma Run_returns:
  "\<exists>st. (Run_step Name hosts name f handle)\<^sup>*\<^sup>* (Run_init hosts s c) st \<and> Run_done hosts st"
  by (rule run.reaches_final [OF Run_inv_init])

lemma Run_done_received: "Run_done hosts st \<Longrightarrow> \<not> panicked st \<Longrightarrow> received st = length hosts"
  by (simp add: Run_done_def)

lemma Run_finished:
  assumes "(Run_step Name hosts name f handle)\<^sup>*\<^sup>* (Run_init hosts s c) st"
    and "Run_done hosts st" and "\<not> panicked st"
  shows "Run_inv hosts st" and "received st = length hosts"
  using run.inv_steps [OF assms(1) Run_inv_init] Run_done_received [OF assms(2,3)] by simp_all

lemma Run_collected:
  assumes "(Run_step Name hosts name f (\<lambda>c e. Some (Errors_Handle c e)))\<^sup>*\<^sup>*
      (Run_init hosts s zero_Errors) st"
    and "Run_done hosts st" and "\<And>h s. h \<in> set hosts \<Longrightarrow> fst (f h s) = res h"
  shows "mset (errs (handler st)) = mset (task_errors Name hosts name res) \<and>
    (\<forall>i < length hosts. phases st ! i = Received) \<and> \<not> panicked st"
proof -
  from collector.run_conserves_errors_star [OF assms(1) Run_inv_init assms(3)]
  have sum: "mset (errs (handler st)) + outstanding Name hosts name res st =
      mset (task_errors Name hosts name res)" and np: "\<not> panicked st" by auto
  note fin = Run_finished [OF assms(1,2) np]
  show ?thesis using sum np all_received [OF fin] outstanding_received [OF fin] by auto
qed

text \<open>C7. With an \<open>Errors\<close> collector as the error handler, when \<open>Run\<close> returns every
  goroutine was received from and the collector holds, in some order, exactly the task
  errors of the failing hosts, each wrapped once with its host and task name: no error is
  lost, duplicated or invented by any interleaving.\<close>

theorem Run_collects_all:
  assumes "(Run_step Name hosts name f (\<lambda>c e. Some (Errors_Handle c e)))\<^sup>*\<^sup>*
      (Run_init hosts s zero_Errors) st"
    and "Run_done hosts st" and "\<And>h s. h \<in> set hosts \<Longrightarrow> fst (f h s) = res h"
  shows "mset (errs (handler st)) = mset (task_errors Name hosts name res) \<and>
    (\<forall>i < length hosts. phases st ! i = Received) \<and> \<not> panicked st"
  using assms by (rule Run_collected)

lemma Run_collects_all_witness:
  "mset (errs \<lparr>errs = [TaskError ''t'' ''h'' (Sentinel ''x'')]\<rparr>) =
     mset (task_errors id [''h''] ''t'' (\<lambda>h. Some (Sentinel ''x'')))"
proof -
  let ?f = "\<lambda>h (u :: unit). (Some (Sentinel ''x''), u)"
  let ?S = "Run_step id [''h''] ''t'' ?f (\<lambda>c e. Some (Errors_Handle c e))"
  let ?a = "Run_init [''h''] () zero_Errors"
  let ?b = "?a\<lparr>phases := [Sending (Some (TaskError ''t'' ''h'' (Sentinel ''x'')))]\<rparr>"
  let ?c = "?b\<lparr>phases := [Received], received := 1,
    handler := \<lparr>errs = [TaskError ''t'' ''h'' (Sentinel ''x'')]\<rparr>\<rparr>"
  have "?S ?a ?b" using Run_step.task [of 0 ?a ?f "[''h'']" "Some (Sentinel ''x'')" "()" id]
    by (simp add: Run_init_def)
  moreover have "?S ?b ?c"
    using Run_step.receive_err [of 0 ?b "TaskError ''t'' ''h'' (Sentinel ''x'')" "[''h'']"
      "\<lambda>c e. Some (Errors_Handle c e)" "\<lparr>errs = [TaskError ''t'' ''h'' (Sentinel ''x'')]\<rparr>"]
    by (simp add: zero_Errors_def Errors_Handle_def)
  ultimately have "?S\<^sup>*\<^sup>* ?a ?c" by (blast intro: converse_rtranclp_into_rtranclp)
  from Run_collects_all [OF this, of "\<lambda>h. Some (Sentinel ''x'')"] show ?thesis
    by (simp add: Run_done_def)
qed

section \<open>Collect\<close>

text \<open>
  \<open>Collect\<close> replaces the group's handler by an \<open>Errors\<close> collector and runs a closure that
  stores the value of \<open>fn\<close> under the host's name. \<open>Inl\<close> is a non-nil error of \<open>fn\<close>.
\<close>

definition Collect_task ::
  "('h \<Rightarrow> string) \<Rightarrow> ('h \<Rightarrow> err + 'a) \<Rightarrow> 'h \<Rightarrow> (string \<rightharpoonup> 'a) \<Rightarrow> error \<times> (string \<rightharpoonup> 'a)" where
  "Collect_task Name fn host results =
     (case fn host of
        Inl e \<Rightarrow> (Some e, results)
      | Inr v \<Rightarrow> (None, results(Name host \<mapsto> v)))"

definition Collect_step ::
  "('h \<Rightarrow> string) \<Rightarrow> 'h list \<Rightarrow> string \<Rightarrow> ('h \<Rightarrow> err + 'a)
     \<Rightarrow> (string \<rightharpoonup> 'a, Errors) run_state \<Rightarrow> (string \<rightharpoonup> 'a, Errors) run_state \<Rightarrow> bool" where
  "Collect_step Name hosts name fn =
     Run_step Name hosts name (Collect_task Name fn) (\<lambda>c e. Some (Errors_Handle c e))"

definition Collect_init :: "'h list \<Rightarrow> (string \<rightharpoonup> 'a, Errors) run_state" where
  "Collect_init hosts = Run_init hosts Map.empty zero_Errors"

definition Collect_result ::
  "(string \<rightharpoonup> 'a, Errors) run_state \<Rightarrow> (string \<rightharpoonup> 'a) \<times> error" where
  "Collect_result st = (shared st, Errors_Err (handler st))"

fun failure :: "err + 'a \<Rightarrow> error" where
  "failure (Inl e) = Some e"
| "failure (Inr v) = None"

lemma failure_None_iff: "failure r = None \<longleftrightarrow> (\<exists>v. r = Inr v)"
  by (cases r) auto

lemma fst_Collect_task [simp]: "fst (Collect_task Name fn h m) = failure (fn h)"
  by (simp add: Collect_task_def split: sum.splits)

text \<open>Which entries the map holds, given which goroutines have run their closure.\<close>

definition stored_ok ::
  "('h \<Rightarrow> string) \<Rightarrow> 'h list \<Rightarrow> ('h \<Rightarrow> err + 'a) \<Rightarrow> (string \<rightharpoonup> 'a, Errors) run_state \<Rightarrow> bool" where
  "stored_ok Name hosts fn st \<longleftrightarrow>
     (\<forall>n v. shared st n = Some v \<longrightarrow> (\<exists>h \<in> set hosts. Name h = n \<and> fn h = Inr v)) \<and>
     (\<forall>i < length hosts. phases st ! i \<noteq> Running \<longrightarrow> (\<forall>v. fn (hosts ! i) = Inr v \<longrightarrow>
        shared st (Name (hosts ! i)) \<noteq> None))"

lemma stored_ok_step:
  assumes "Collect_step Name hosts name fn st st'" and "Run_inv hosts st" and "stored_ok Name hosts fn st"
  shows "stored_ok Name hosts fn st'"
  using assms(1) unfolding Collect_step_def
proof cases
  case (task i e s')
  have len: "length (phases st) = length hosts" using assms(2) by (simp add: Run_inv_def)
  show ?thesis
  proof (cases "fn (hosts ! i)")
    case (Inl x)
    with task assms(3) len show ?thesis
      by (auto simp: stored_ok_def Collect_task_def nth_list_update)
  next
    case (Inr v)
    with task have "s' = (shared st)(Name (hosts ! i) \<mapsto> v)" by (simp add: Collect_task_def)
    moreover have "hosts ! i \<in> set hosts" using task len by simp
    ultimately show ?thesis using task assms(3) len Inr
      by (auto simp: stored_ok_def nth_list_update)
  qed
qed (use assms in \<open>auto simp: stored_ok_def nth_list_update Run_inv_def\<close>)

lemma Collect_step_inv:
  "Collect_step Name hosts name fn st st' \<Longrightarrow> Run_inv hosts st \<and> stored_ok Name hosts fn st \<Longrightarrow>
     Run_inv hosts st' \<and> stored_ok Name hosts fn st'"
  using stored_ok_step Run_step_inv unfolding Collect_step_def by blast

lemma Collect_init_inv: "Run_inv hosts (Collect_init hosts) \<and> stored_ok Name hosts fn (Collect_init hosts)"
  by (simp add: Collect_init_def Run_inv_init stored_ok_def)

interpretation collect: live_system "Collect_step Name hosts name fn"
    "\<lambda>st. Run_inv hosts st \<and> stored_ok Name hosts fn st" Run_weight "Run_done hosts"
  for Name hosts name and fn :: "'h \<Rightarrow> err + 'a"
  by unfold_locales
    (use Collect_step_inv Run_step_weight Run_progress in \<open>unfold Collect_step_def, blast+\<close>)

lemma Collect_returns:
  "\<exists>st. (Collect_step Name hosts name fn)\<^sup>*\<^sup>* (Collect_init hosts) st \<and> Run_done hosts st"
  by (rule collect.reaches_final [OF Collect_init_inv])

text \<open>C24. When \<open>Collect\<close> returns, its map has exactly the names of the hosts where \<open>fn\<close>
  succeeded, each with the value \<open>fn\<close> gave on a host of that name, and its error joins
  exactly the wrapped errors of the hosts where \<open>fn\<close> failed.\<close>

theorem Collect_spec:
  assumes "(Collect_step Name hosts name fn)\<^sup>*\<^sup>* (Collect_init hosts) st" and "Run_done hosts st"
    and "Collect_result st = (results, e)"
  shows "dom results = {Name h | h v. h \<in> set hosts \<and> fn h = Inr v} \<and>
    (\<forall>n v. results n = Some v \<longrightarrow> (\<exists>h \<in> set hosts. Name h = n \<and> fn h = Inr v)) \<and>
    (\<exists>es. mset es = mset (task_errors Name hosts name (\<lambda>h. failure (fn h))) \<and>
      e = (if es = [] then None else Some (Joined es)))"
proof -
  have steps: "(Run_step Name hosts name (Collect_task Name fn) (\<lambda>c e. Some (Errors_Handle c e)))\<^sup>*\<^sup>*
      (Run_init hosts Map.empty zero_Errors) st"
    using assms(1) by (simp add: Collect_step_def Collect_init_def)
  have res: "\<And>h s. h \<in> set hosts \<Longrightarrow> fst (Collect_task Name fn h s) = failure (fn h)" by simp
  note all = Run_collected [OF steps assms(2) res]
  have st: "stored_ok Name hosts fn st"
    using collect.inv_steps [OF assms(1) Collect_init_inv] by simp
  have "shared st (Name h) \<noteq> None" if "h \<in> set hosts" "fn h = Inr v" for h v
    using that st all by (auto simp: stored_ok_def in_set_conv_nth)
  with st have "dom (shared st) = {Name h | h v. h \<in> set hosts \<and> fn h = Inr v}"
    by (fastforce simp: stored_ok_def)
  with st all assms(3) show ?thesis
    by (auto simp: Collect_result_def stored_ok_def Errors_Err_eq)
qed

lemma Collect_spec_witness:
  "\<exists>st results e. Collect_result st = (results :: string \<rightharpoonup> int, e) \<and> dom results = {''a''} \<and>
     e = Some (Joined [TaskError ''t'' ''b'' (Sentinel ''x'')])"
proof -
  let ?fn = "\<lambda>h. if h = ''a'' then Inr (7 :: int) else Inl (Sentinel ''x'')"
  obtain st where st: "(Collect_step id [''a'', ''b''] ''t'' ?fn)\<^sup>*\<^sup>* (Collect_init [''a'', ''b'']) st"
      "Run_done [''a'', ''b''] st"
    using Collect_returns [of id "[''a'', ''b'']" "''t''" ?fn] by blast
  obtain results e where r: "Collect_result st = (results, e)" by fastforce
  have "{id h | h v. h \<in> set [''a'', ''b''] \<and> ?fn h = Inr v} = {''a''}" by auto
  moreover note spec = Collect_spec [OF st r]
  ultimately have dom: "dom results = {''a''}" by (simp only:)
  have te: "task_errors id [''a'', ''b''] ''t'' (\<lambda>h. failure (?fn h)) =
      [TaskError ''t'' ''b'' (Sentinel ''x'')]" by (simp add: task_errors_def)
  from spec obtain es where es:
    "mset es = mset (task_errors id [''a'', ''b''] ''t'' (\<lambda>h. failure (?fn h)))"
    "e = (if es = [] then None else Some (Joined es))" by (elim conjE exE)
  from es(1) have "es = [TaskError ''t'' ''b'' (Sentinel ''x'')]" unfolding te by simp
  with es(2) have "e = Some (Joined [TaskError ''t'' ''b'' (Sentinel ''x'')])" by simp
  with r dom show ?thesis by (intro exI conjI)
qed

text \<open>When the host names are distinct, \<open>Collect\<close> returns a host's own value under
  its name, nothing for a failing host, and a nil error exactly when every host succeeded.\<close>

theorem Collect_distinct:
  assumes "(Collect_step Name hosts name fn)\<^sup>*\<^sup>* (Collect_init hosts) st" and "Run_done hosts st"
    and "Collect_result st = (results, e)" and "distinct (map Name hosts)" and "h \<in> set hosts"
  shows "results (Name h) = (case fn h of Inl _ \<Rightarrow> None | Inr v \<Rightarrow> Some v) \<and>
    (e = None \<longleftrightarrow> (\<forall>h' \<in> set hosts. \<exists>v. fn h' = Inr v))"
proof -
  have st: "Run_inv hosts st \<and> stored_ok Name hosts fn st"
    by (rule collect.inv_steps [OF assms(1) Collect_init_inv])
  have steps: "(Run_step Name hosts name (Collect_task Name fn) (\<lambda>c e. Some (Errors_Handle c e)))\<^sup>*\<^sup>*
      (Run_init hosts Map.empty zero_Errors) st"
    using assms(1) by (simp add: Collect_step_def Collect_init_def)
  have res: "\<And>h s. h \<in> set hosts \<Longrightarrow> fst (Collect_task Name fn h s) = failure (fn h)" by simp
  from collector.run_conserves_errors_star [OF steps Run_inv_init res]
  have sum: "mset (errs (handler st)) + outstanding Name hosts name (\<lambda>h. failure (fn h)) st =
      mset (task_errors Name hosts name (\<lambda>h. failure (fn h)))" and np: "\<not> panicked st" by auto
  note fin = Run_finished [OF steps assms(2) np]
  have all: "\<forall>i < length hosts. phases st ! i = Received" by (rule all_received [OF fin])
  have inj: "h' = h" if "h' \<in> set hosts" "Name h' = Name h" for h'
    using assms(4,5) that by (auto simp: distinct_map dest: inj_onD)
  have "results (Name h) = (case fn h of Inl _ \<Rightarrow> None | Inr v \<Rightarrow> Some v)"
  proof (cases "fn h")
    case (Inl x)
    with inj st assms(3) have "results (Name h) \<noteq> Some v" for v
      unfolding stored_ok_def Collect_result_def by (metis Inl_Inr_False prod.inject)
    with Inl show ?thesis by (cases "results (Name h)") auto
  next
    case (Inr v)
    obtain i where "i < length hosts" "hosts ! i = h" using assms(5) by (auto simp: in_set_conv_nth)
    with Inr st all obtain w where w: "shared st (Name h) = Some w" by (force simp: stored_ok_def)
    with st inj Inr have "w = v" by (fastforce simp: stored_ok_def)
    with w Inr assms(3) show ?thesis by (simp add: Collect_result_def)
  qed
  moreover have "e = None \<longleftrightarrow> task_errors Name hosts name (\<lambda>h. failure (fn h)) = []"
    using sum outstanding_received [OF fin] assms(3)
    by (auto simp: Collect_result_def Errors_Err_eq split: if_splits)
  ultimately show ?thesis by (simp add: task_errors_Nil_iff failure_None_iff)
qed

lemma Collect_distinct_witness:
  "\<exists>st results e. Collect_result st = (results, e) \<and> results ''a'' = Some (7 :: int) \<and> e = None"
proof -
  let ?fn = "\<lambda>h. Inr 7 :: err + int"
  obtain st where st: "(Collect_step id [''a'', ''b''] ''t'' ?fn)\<^sup>*\<^sup>* (Collect_init [''a'', ''b'']) st"
      "Run_done [''a'', ''b''] st"
    using Collect_returns [of id "[''a'', ''b'']" "''t''" ?fn] by blast
  obtain results e where r: "Collect_result st = (results, e)" by (cases "Collect_result st")
  from Collect_distinct [OF st r, of "''a''"] r show ?thesis by auto
qed

section \<open>The panicking handler\<close>

definition Panic :: "'c \<Rightarrow> err \<Rightarrow> 'c option" where
  "Panic c e = None"

definition Ignore :: "'c \<Rightarrow> err \<Rightarrow> 'c option" where
  "Ignore c e = Some c"

lemma Panic_step:
  assumes "Run_step Name hosts name f Panic st st'"
    and "Run_inv hosts st" and "\<And>h s. h \<in> set hosts \<Longrightarrow> fst (f h s) = res h"
  shows "size (outstanding Name hosts name res st') + of_bool (panicked st') =
    size (outstanding Name hosts name res st) + of_bool (panicked st)"
  using assms(1)
proof cases
  case (task i e s')
  have len: "length (phases st) = length hosts" using assms(2) by (simp add: Run_inv_def)
  with task have "hosts ! i \<in> set hosts" by simp
  then have "res (hosts ! i) = e" using assms(3) task(4) by (metis fst_conv)
  with outstanding_update [OF task(2) len, of Name name res
    "Sending (wrapError (Name (hosts ! i)) name e)"] task
  show ?thesis by simp
next
  case (receive_nil i)
  have len: "length (phases st) = length hosts" using assms(2) by (simp add: Run_inv_def)
  with outstanding_update [OF receive_nil(2) len, of Name name res Received] receive_nil show ?thesis by simp
next
  case (receive_panic i e)
  have len: "length (phases st) = length hosts" using assms(2) by (simp add: Run_inv_def)
  from outstanding_update [OF receive_panic(2) len, of Name name res Received] receive_panic
  have "add_mset e (outstanding Name hosts name res st') = outstanding Name hosts name res st"
    by (simp add: outstanding_def)
  then have "size (outstanding Name hosts name res st) = Suc (size (outstanding Name hosts name res st'))"
    by (metis size_add_mset)
  with receive_panic show ?thesis by simp
qed (simp add: Panic_def)

lemma Panic_steps:
  assumes "(Run_step Name hosts name f Panic)\<^sup>*\<^sup>* st st'"
    and "Run_inv hosts st" and "\<And>h s. h \<in> set hosts \<Longrightarrow> fst (f h s) = res h"
  shows "size (outstanding Name hosts name res st') + of_bool (panicked st') =
    size (outstanding Name hosts name res st) + of_bool (panicked st)"
  using assms(1)
proof (induction rule: rtranclp_induct)
  case (step u v)
  from step(1) assms(2) have "Run_inv hosts u" by (rule run.inv_steps)
  with step Panic_step [OF step(2)] assms(3) show ?case by simp
qed simp

text \<open>Under the default handler \<open>Panic\<close>, \<open>Run\<close> panics exactly when some host's task
  failed, and then all the task errors but the first one received are never reported: their
  goroutines have no receiver left.\<close>

theorem Run_Panic:
  assumes "(Run_step Name hosts name f Panic)\<^sup>*\<^sup>* (Run_init hosts s c) st"
    and "Run_done hosts st" and "\<And>h s. h \<in> set hosts \<Longrightarrow> fst (f h s) = res h"
  shows "(panicked st \<longleftrightarrow> (\<exists>h \<in> set hosts. res h \<noteq> None)) \<and>
    size (outstanding Name hosts name res st) = length (task_errors Name hosts name res) - 1"
proof -
  from Panic_steps [OF assms(1) Run_inv_init assms(3)]
  have sum: "size (outstanding Name hosts name res st) + of_bool (panicked st) =
      length (task_errors Name hosts name res)" by simp
  show ?thesis
  proof (cases "panicked st")
    case True
    with sum task_errors_Nil_iff [of Name hosts name res] show ?thesis by auto
  next
    case False
    from outstanding_received [OF Run_finished [OF assms(1,2) False]] sum False
    have "task_errors Name hosts name res = []" by simp
    with False outstanding_received [OF Run_finished [OF assms(1,2) False]] task_errors_Nil_iff
    show ?thesis by (metis diff_is_0_eq' le0 list.size(3) size_empty)
  qed
qed

lemma Run_Panic_witness:
  "\<exists>st :: (unit, unit) run_state. panicked st \<and>
     size (outstanding id [''a'', ''b''] ''t'' (\<lambda>h. Some (Sentinel ''x'')) st) = 1"
proof -
  let ?f = "\<lambda>h (u :: unit). (Some (Sentinel ''x''), u)"
  obtain st where st: "(Run_step id [''a'', ''b''] ''t'' ?f Panic)\<^sup>*\<^sup>* (Run_init [''a'', ''b''] () ()) st"
      "Run_done [''a'', ''b''] st"
    using Run_returns [of id "[''a'', ''b'']" "''t''" ?f Panic "()" "()"] by blast
  from Run_Panic [OF st, of "\<lambda>h. Some (Sentinel ''x'')"] show ?thesis
    by (auto simp: task_errors_def)
qed

end
