(* ===== verification/Group_Options.thy ===== *)
theory Group_Options
  imports Group_Run
begin

text \<open>
  iago.go, the options of \<open>NewSSHGroup\<close>, the \<open>Group\<close> structure and \<open>NewGroup\<close>. A
  \<open>GroupOption\<close> is a function on the configuration, as in the code; an error handler is a
  function of its own state that may panic.
\<close>

record 'c groupConfig =
  failFast :: bool
  dialConcurrency :: int
  forwardAgent :: bool
  keepAliveInterval :: int
  errorHandler :: "('c \<Rightarrow> err \<Rightarrow> 'c option) option"

type_synonym 'c groupOption = "'c groupConfig \<Rightarrow> 'c groupConfig"

definition zero_groupConfig :: "'c groupConfig" where
  "zero_groupConfig =
     \<lparr>failFast = False, dialConcurrency = 0, forwardAgent = False, keepAliveInterval = 0,
      errorHandler = None\<rparr>"

definition applyGroupOptions :: "'c groupOption list \<Rightarrow> 'c groupConfig" where
  "applyGroupOptions opts = foldl (\<lambda>cfg opt. opt cfg) zero_groupConfig opts"

definition FailFast :: "'c groupOption" where
  "FailFast cfg = cfg\<lparr>failFast := True\<rparr>"

definition DialConcurrency :: "int \<Rightarrow> 'c groupOption" where
  "DialConcurrency n cfg = cfg\<lparr>dialConcurrency := n\<rparr>"

definition KeepAlive :: "int \<Rightarrow> 'c groupOption" where
  "KeepAlive interval cfg = cfg\<lparr>keepAliveInterval := interval\<rparr>"

definition ForwardAgent :: "'c groupOption" where
  "ForwardAgent cfg = cfg\<lparr>forwardAgent := True\<rparr>"

definition WithErrorHandler :: "('c \<Rightarrow> err \<Rightarrow> 'c option) \<Rightarrow> 'c groupOption" where
  "WithErrorHandler h cfg = cfg\<lparr>errorHandler := Some h\<rparr>"

record ('h, 'c, 'k) Group =
  Hosts :: "'h list"
  ErrorHandler :: "'c \<Rightarrow> err \<Rightarrow> 'c option"
  Timeout :: int
  DialErrors :: "string \<rightharpoonup> err"
  sharedClosers :: "'k list"

definition DefaultTimeout :: int where
  "DefaultTimeout = 30 * 1000000000"

text \<open>A nil \<open>DialErrors\<close> map is the empty one.\<close>

definition NewGroup :: "'h list \<Rightarrow> ('h, 'c, 'k) Group" where
  "NewGroup hosts =
     \<lparr>Hosts = hosts, ErrorHandler = Panic, Timeout = DefaultTimeout, DialErrors = Map.empty,
      sharedClosers = []\<rparr>"

end
