(* ===== verification/Go_Crypto.thy ===== *)
theory Go_Crypto
  imports Go_Strings "HOL-Library.Word"
begin

text \<open>
  The functions of Go's \<open>encoding/base64\<close>, \<open>crypto/sha1\<close> and \<open>crypto/hmac\<close> that
  \<open>matchesHashedHost\<close> of ssh_config.go calls: the standard base64 encoding, SHA-1
  (FIPS 180-4) and HMAC (RFC 2104) with a block of 64 bytes.
\<close>

unbundle bit_operations_syntax

section \<open>Base64\<close>

definition b64_val :: "char \<Rightarrow> int option" where
  "b64_val c =
     (let n = of_char c in
      if 65 \<le> n \<and> n \<le> 90 then Some (n - 65)
      else if 97 \<le> n \<and> n \<le> 122 then Some (n - 71)
      else if 48 \<le> n \<and> n \<le> 57 then Some (n + 4)
      else if n = 43 then Some 62
      else if n = 47 then Some 63
      else None)"

definition b64_char :: "int \<Rightarrow> char" where
  "b64_char v =
     char_of (if v < 26 then v + 65 else if v < 52 then v + 71 else if v < 62 then v - 4
              else if v = 62 then 43 else 47)"

definition bytes3 :: "int \<Rightarrow> string" where
  "bytes3 n = [char_of (n div 65536), char_of (n div 256 mod 256), char_of (n mod 256)]"

text \<open>The decoder on a text without line breaks, four characters at a time.\<close>

fun b64_groups :: "string \<Rightarrow> string option" where
  "b64_groups [] = Some []"
| "b64_groups (a # b # c # d # rest) =
     (if d = CHR ''='' \<and> c = CHR ''='' then
        (case (b64_val a, b64_val b) of
           (Some x, Some y) \<Rightarrow>
             if rest = [] then Some (take 1 (bytes3 (x * 262144 + y * 4096))) else None
         | _ \<Rightarrow> None)
      else if d = CHR ''='' then
        (case (b64_val a, b64_val b, b64_val c) of
           (Some x, Some y, Some z) \<Rightarrow>
             if rest = [] then Some (take 2 (bytes3 (x * 262144 + y * 4096 + z * 64))) else None
         | _ \<Rightarrow> None)
      else
        (case (b64_val a, b64_val b, b64_val c, b64_val d) of
           (Some x, Some y, Some z, Some w) \<Rightarrow>
             (case b64_groups rest of
                None \<Rightarrow> None
              | Some t \<Rightarrow> Some (bytes3 (x * 262144 + y * 4096 + z * 64 + w) @ t))
         | _ \<Rightarrow> None))"
| "b64_groups _ = None"

text \<open>\<open>base64.StdEncoding.DecodeString\<close>: line breaks are skipped, an error is \<open>None\<close>.\<close>

definition DecodeString :: "string \<Rightarrow> string option" where
  "DecodeString s = b64_groups (filter (\<lambda>c. c \<noteq> CHR 0x0A \<and> c \<noteq> CHR 0x0D) s)"

text \<open>The encoder, the reference for what the decoder inverts.\<close>

definition enc4 :: "int \<Rightarrow> string" where
  "enc4 n =
     [b64_char (n div 262144), b64_char (n div 4096 mod 64), b64_char (n div 64 mod 64),
      b64_char (n mod 64)]"

fun EncodeToString :: "string \<Rightarrow> string" where
  "EncodeToString [] = []"
| "EncodeToString [a] = take 2 (enc4 (of_char a * 65536)) @ ''==''"
| "EncodeToString [a, b] = take 3 (enc4 (of_char a * 65536 + of_char b * 256)) @ ''=''"
| "EncodeToString (a # b # c # rest) =
     enc4 (of_char a * 65536 + of_char b * 256 + of_char c) @ EncodeToString rest"

section \<open>SHA-1\<close>

type_synonym u32 = "32 word"

definition word_of_bytes :: "string \<Rightarrow> u32" where
  "word_of_bytes bs = word_of_int (foldl (\<lambda>n c. n * 256 + of_char c) 0 bs)"

definition bytes_of_word :: "u32 \<Rightarrow> string" where
  "bytes_of_word w =
     (let n = uint w in
      [char_of (n div 16777216), char_of (n div 65536 mod 256), char_of (n div 256 mod 256),
       char_of (n mod 256)])"

fun words :: "string \<Rightarrow> u32 list" where
  "words (a # b # c # d # rest) = word_of_bytes [a, b, c, d] # words rest"
| "words _ = []"

definition rotl :: "nat \<Rightarrow> u32 \<Rightarrow> u32" where
  "rotl k w = push_bit k w OR drop_bit (32 - k) w"

text \<open>The message schedule, last word first: each new word mixes four of the last sixteen.\<close>

fun schedule :: "nat \<Rightarrow> u32 list \<Rightarrow> u32 list" where
  "schedule 0 ws = ws"
| "schedule (Suc n) ws =
     schedule n (rotl 1 (ws ! 2 XOR ws ! 7 XOR ws ! 13 XOR ws ! 15) # ws)"

definition sha1_f :: "nat \<Rightarrow> u32 \<Rightarrow> u32 \<Rightarrow> u32 \<Rightarrow> u32" where
  "sha1_f t b c d =
     (if t < 20 then (b AND c) OR (NOT b AND d)
      else if t < 40 then b XOR c XOR d
      else if t < 60 then (b AND c) OR (b AND d) OR (c AND d)
      else b XOR c XOR d)"

definition sha1_k :: "nat \<Rightarrow> u32" where
  "sha1_k t =
     (if t < 20 then 0x5A827999 else if t < 40 then 0x6ED9EBA1
      else if t < 60 then 0x8F1BBCDC else 0xCA62C1D6)"

type_synonym sha1_state = "u32 \<times> u32 \<times> u32 \<times> u32 \<times> u32"

fun sha1_rounds :: "nat \<Rightarrow> u32 list \<Rightarrow> sha1_state \<Rightarrow> sha1_state" where
  "sha1_rounds t [] st = st"
| "sha1_rounds t (w # ws) (a, b, c, d, e) =
     sha1_rounds (Suc t) ws
       (rotl 5 a + sha1_f t b c d + e + w + sha1_k t, a, rotl 30 b, c, d)"

definition sha1_block :: "sha1_state \<Rightarrow> string \<Rightarrow> sha1_state" where
  "sha1_block st block =
     (let (a, b, c, d, e) = st;
          (a', b', c', d', e') = sha1_rounds 0 (rev (schedule 64 (rev (words block)))) st
      in (a + a', b + b', c + c', d + d', e + e'))"

definition sha1_pad :: "string \<Rightarrow> string" where
  "sha1_pad m =
     (let n = 8 * int (length m)
      in m @ CHR 0x80 # replicate ((119 - length m mod 64) mod 64) CHR 0x00 @
         bytes_of_word (word_of_int (n div 4294967296)) @ bytes_of_word (word_of_int n))"

function sha1_blocks :: "sha1_state \<Rightarrow> string \<Rightarrow> sha1_state" where
  "sha1_blocks st m =
     (if m = [] then st else sha1_blocks (sha1_block st (take 64 m)) (drop 64 m))"
  by pat_completeness auto
termination
  by (relation "measure (\<lambda>(st, m). length m)") auto

declare sha1_blocks.simps [simp del]

definition sha1 :: "string \<Rightarrow> string" where
  "sha1 m =
     (let (a, b, c, d, e) =
        sha1_blocks (0x67452301, 0xEFCDAB89, 0x98BADCFE, 0x10325476, 0xC3D2E1F0) (sha1_pad m)
      in bytes_of_word a @ bytes_of_word b @ bytes_of_word c @ bytes_of_word d @ bytes_of_word e)"

section \<open>HMAC\<close>

definition xor_pad :: "int \<Rightarrow> string \<Rightarrow> string" where
  "xor_pad p key =
     map (\<lambda>c. char_of (of_char c XOR p)) (key @ replicate (64 - length key) CHR 0x00)"

definition hmac_sha1 :: "string \<Rightarrow> string \<Rightarrow> string" where
  "hmac_sha1 key msg =
     (let k = (if 64 < length key then sha1 key else key)
      in sha1 (xor_pad 0x5C k @ sha1 (xor_pad 0x36 k @ msg)))"

section \<open>The decoder inverts the encoder\<close>

lemma b64_val_char:
  assumes "0 \<le> v" "v < 64"
  shows "b64_val (b64_char v) = Some v" and "b64_char v \<noteq> CHR ''=''"
    and "b64_char v \<noteq> CHR 0x0A" and "b64_char v \<noteq> CHR 0x0D"
proof -
  consider "v < 26" | "26 \<le> v" "v < 52" | "52 \<le> v" "v < 62" | "v = 62" | "v = 63"
    using assms by linarith
  then have n: "of_char (b64_char v) =
      (if v < 26 then v + 65 else if v < 52 then v + 71 else if v < 62 then v - 4
       else if v = 62 then 43 else 47)"
    using assms by cases (simp_all add: b64_char_def)
  then show "b64_val (b64_char v) = Some v"
    using assms by (simp add: b64_val_def Let_def)
  have "of_char (b64_char v) \<notin> {61, 10, 13 :: int}" using n assms by auto
  then show "b64_char v \<noteq> CHR ''=''" "b64_char v \<noteq> CHR 0x0A" "b64_char v \<noteq> CHR 0x0D"
    by auto
qed

lemma of_char_bounds: "0 \<le> (of_char c :: int)" "(of_char c :: int) < 256"
proof -
  have m: "(of_char c :: int) = of_char c mod 256" by simp
  show "0 \<le> (of_char c :: int)" by (subst m) (rule pos_mod_sign, simp)
  show "(of_char c :: int) < 256" by (subst m) (rule pos_mod_bound, simp)
qed

lemma b64_digits:
  fixes n :: int
  assumes "0 \<le> n" "n < 16777216"
  shows "n div 262144 * 262144 + n div 4096 mod 64 * 4096 + n div 64 mod 64 * 64 + n mod 64 = n"
    and "0 \<le> n div 262144 \<and> n div 262144 < 64"
proof -
  define q1 q2 q3 where "q1 = n div 64" and "q2 = q1 div 64" and "q3 = q2 div 64"
  have q: "n div 4096 = q2" "n div 262144 = q3"
    using zdiv_zmult2_eq [of 64 n 64] zdiv_zmult2_eq [of 64 "n div 64" 64] zdiv_zmult2_eq [of 4096 n 64]
    by (simp_all add: q1_def q2_def q3_def)
  have "n = 64 * q1 + n mod 64" "q1 = 64 * q2 + q1 mod 64" "q2 = 64 * q3 + q2 mod 64"
    by (simp_all add: q1_def q2_def q3_def)
  then show "n div 262144 * 262144 + n div 4096 mod 64 * 4096 + n div 64 mod 64 * 64 + n mod 64 = n"
    unfolding q by (simp add: q1_def [symmetric])
  show "0 \<le> n div 262144 \<and> n div 262144 < 64"
    using assms by (simp add: pos_imp_zdiv_nonneg_iff div_less_iff_less_mult)
qed

lemma bytes3_of:
  "bytes3 (of_char a * 65536 + of_char b * 256 + of_char c) = [a, b, c]"
proof -
  define x y z n :: int where "x = of_char a" and "y = of_char b" and "z = of_char c"
    and "n = x * 65536 + y * 256 + z"
  have b: "0 \<le> y" "y < 256" "0 \<le> z" "z < 256" using of_char_bounds by (simp_all add: y_def z_def)
  have m: "(k * 256 + r) div 256 = k" "(k * 256 + r) mod 256 = r" if "0 \<le> r" "r < 256" for k r :: int
    using that by simp_all
  have "n = (x * 256 + y) * 256 + z" by (simp add: n_def)
  then have n256: "n div 256 = x * 256 + y" "n mod 256 = z" by (simp_all only: m [OF b(3,4)])
  have "n div 65536 = n div 256 div 256" using zdiv_zmult2_eq [of 256 n 256] by simp
  moreover have "(x * 256 + y) div 256 = x" "(x * 256 + y) mod 256 = y" using b by simp_all
  ultimately have "n div 65536 = x" "n div 256 mod 256 = y" using n256 by simp_all
  then show ?thesis
    using n256 by (simp add: bytes3_def flip: x_def y_def z_def n_def) (simp add: x_def y_def z_def)
qed

lemma enc4_decode:
  assumes "0 \<le> n" "n < 16777216"
  obtains a b c d where "enc4 n = [a, b, c, d]"
    and "b64_val a = Some (n div 262144)" "b64_val b = Some (n div 4096 mod 64)"
    and "b64_val c = Some (n div 64 mod 64)" "b64_val d = Some (n mod 64)"
    and "a \<noteq> CHR ''='' \<and> b \<noteq> CHR ''='' \<and> c \<noteq> CHR ''='' \<and> d \<noteq> CHR ''=''"
proof -
  have "0 \<le> n div 262144 \<and> n div 262144 < 64" using b64_digits(2) [OF assms] .
  moreover have "0 \<le> k mod 64 \<and> k mod 64 < 64" for k :: int by simp
  ultimately show ?thesis
    using that [of "b64_char (n div 262144)" "b64_char (n div 4096 mod 64)"
        "b64_char (n div 64 mod 64)" "b64_char (n mod 64)"]
      b64_val_char by (simp add: enc4_def)
qed

text \<open>The value of a group whose last bits are zero, as the padded groups have it.\<close>

lemma group_bounds:
  "0 \<le> of_char a * 65536 + of_char b * 256 + (of_char c :: int) \<and>
   of_char a * 65536 + of_char b * 256 + (of_char c :: int) < 16777216"
  using of_char_bounds [of a] of_char_bounds [of b] of_char_bounds [of c] by simp

lemma b64_group1:
  assumes "b64_val p = Some x" "b64_val q = Some y"
  shows "b64_groups [p, q, CHR ''='', CHR ''=''] = Some (take 1 (bytes3 (x * 262144 + y * 4096)))"
  by (simp only: b64_groups.simps assms option.case prod.case simp_thms if_True)

lemma b64_group2:
  assumes "b64_val p = Some x" "b64_val q = Some y" "b64_val r = Some z" "r \<noteq> CHR ''=''"
  shows "b64_groups [p, q, r, CHR ''=''] = Some (take 2 (bytes3 (x * 262144 + y * 4096 + z * 64)))"
  by (simp only: b64_groups.simps assms option.case prod.case simp_thms if_True if_False)

lemma b64_group4:
  assumes "b64_val p = Some x" "b64_val q = Some y" "b64_val r = Some z" "b64_val s = Some w"
    and "s \<noteq> CHR ''=''" and "b64_groups rest = Some t"
  shows "b64_groups (p # q # r # s # rest) =
    Some (bytes3 (x * 262144 + y * 4096 + z * 64 + w) @ t)"
  by (simp only: b64_groups.simps assms option.case prod.case simp_thms if_False)

lemma b64_groups_Encode: "b64_groups (EncodeToString bs) = Some bs"
proof (induction bs rule: EncodeToString.induct)
  case 1
  show ?case by (simp only: EncodeToString.simps b64_groups.simps)
next
  case (2 a)
  define n :: int where "n = of_char a * 65536"
  have n: "0 \<le> n" "n < 16777216" using of_char_bounds [of a] by (simp_all add: n_def)
  have "n = of_char a * 1024 * 64" "n = of_char a * 16 * 64 * 64" by (simp_all add: n_def)
  then have z: "n mod 64 = 0" "n div 64 mod 64 = 0"
    by (metis mod_mult_self2_is_0, metis mod_mult_self2_is_0 nonzero_mult_div_cancel_right zero_neq_numeral)
  obtain p q r s where e: "enc4 n = [p, q, r, s]" "b64_val p = Some (n div 262144)"
    "b64_val q = Some (n div 4096 mod 64)" "b64_val r = Some (n div 64 mod 64)"
    "b64_val s = Some (n mod 64)"
    and x: "p \<noteq> CHR ''='' \<and> q \<noteq> CHR ''='' \<and> r \<noteq> CHR ''='' \<and> s \<noteq> CHR ''=''"
    by (rule enc4_decode [OF n])
  from x have x': "r \<noteq> CHR ''=''" "s \<noteq> CHR ''=''" by simp_all
  have "EncodeToString [a] = [p, q, CHR ''='', CHR ''='']"
    by (simp only: EncodeToString.simps n_def [symmetric] e(1)) simp
  moreover have "n div 262144 * 262144 + n div 4096 mod 64 * 4096 = n"
    using b64_digits(1) [OF n] by (simp only: z mult_zero_left add_0_right)
  moreover have "bytes3 n = [a, CHR 0x00, CHR 0x00]"
    using bytes3_of [of a "CHR 0x00" "CHR 0x00"] by (simp add: n_def)
  ultimately show ?case using b64_group1 [OF e(2,3)] by simp
next
  case (3 a b)
  define n :: int where "n = of_char a * 65536 + of_char b * 256"
  have n: "0 \<le> n" "n < 16777216" using group_bounds [of a b "CHR 0x00"] by (simp_all add: n_def)
  have "n = (of_char a * 1024 + of_char b * 4) * 64" by (simp add: n_def)
  then have z: "n mod 64 = 0" by (metis mod_mult_self2_is_0)
  obtain p q r s where e: "enc4 n = [p, q, r, s]" "b64_val p = Some (n div 262144)"
    "b64_val q = Some (n div 4096 mod 64)" "b64_val r = Some (n div 64 mod 64)"
    "b64_val s = Some (n mod 64)"
    and x: "p \<noteq> CHR ''='' \<and> q \<noteq> CHR ''='' \<and> r \<noteq> CHR ''='' \<and> s \<noteq> CHR ''=''"
    by (rule enc4_decode [OF n])
  from x have x': "r \<noteq> CHR ''=''" "s \<noteq> CHR ''=''" by simp_all
  have "EncodeToString [a, b] = [p, q, r, CHR ''='']"
    by (simp only: EncodeToString.simps n_def [symmetric] e(1)) simp
  moreover have "n div 262144 * 262144 + n div 4096 mod 64 * 4096 + n div 64 mod 64 * 64 = n"
    using b64_digits(1) [OF n] by (simp only: z add_0_right)
  moreover have "bytes3 n = [a, b, CHR 0x00]"
    using bytes3_of [of a b "CHR 0x00"] by (simp add: n_def)
  ultimately show ?case using b64_group2 [OF e(2-4) x'(1)] by simp
next
  case (4 a b c rest)
  define n :: int where "n = of_char a * 65536 + of_char b * 256 + of_char c"
  have n: "0 \<le> n" "n < 16777216" using group_bounds [of a b c] by (simp_all add: n_def)
  obtain p q r s where e: "enc4 n = [p, q, r, s]" "b64_val p = Some (n div 262144)"
    "b64_val q = Some (n div 4096 mod 64)" "b64_val r = Some (n div 64 mod 64)"
    "b64_val s = Some (n mod 64)"
    and x: "p \<noteq> CHR ''='' \<and> q \<noteq> CHR ''='' \<and> r \<noteq> CHR ''='' \<and> s \<noteq> CHR ''=''"
    by (rule enc4_decode [OF n])
  from x have x': "r \<noteq> CHR ''=''" "s \<noteq> CHR ''=''" by simp_all
  have "EncodeToString (a # b # c # rest) = p # q # r # s # EncodeToString rest"
    by (simp only: EncodeToString.simps n_def [symmetric] e(1)) simp
  moreover have "bytes3 n = [a, b, c]" by (simp only: n_def bytes3_of)
  ultimately show ?case
    using b64_group4 [OF e(2-5) x'(2) 4] by (simp only: b64_digits(1) [OF n]) simp
qed

lemma b64_char_safe: "0 \<le> v \<Longrightarrow> v < 64 \<Longrightarrow> b64_char v \<notin> {CHR 0x0A, CHR 0x0D, CHR ''|'', CHR '',''}"
proof -
  assume v: "0 \<le> v" "v < 64"
  have "b64_val CHR ''|'' = None" "b64_val CHR '','' = None" "b64_val CHR 0x0A = None"
    "b64_val CHR 0x0D = None"
    by code_simp+
  with b64_val_char(1) [OF v] show ?thesis by force
qed

lemma enc4_safe:
  assumes "0 \<le> n" "n < 16777216"
  shows "set (enc4 n) \<inter> {CHR 0x0A, CHR 0x0D, CHR ''|'', CHR '',''} = {}"
proof -
  have "b64_char (k mod 64) \<notin> {CHR 0x0A, CHR 0x0D, CHR ''|'', CHR '',''}" for k
    by (rule b64_char_safe) simp_all
  moreover have "b64_char (n div 262144) \<notin> {CHR 0x0A, CHR 0x0D, CHR ''|'', CHR '',''}"
    using b64_digits(2) [OF assms] by (intro b64_char_safe) simp_all
  ultimately show ?thesis by (simp add: enc4_def)
qed

lemma EncodeToString_safe: "set (EncodeToString bs) \<inter> {CHR 0x0A, CHR 0x0D, CHR ''|'', CHR '',''} = {}"
proof (induction bs rule: EncodeToString.induct)
  case (2 a)
  then show ?case
    using enc4_safe [of "of_char a * 65536"] group_bounds [of a "CHR 0x00" "CHR 0x00"]
      set_take_subset [of 2 "enc4 (of_char a * 65536)"] by auto
next
  case (3 a b)
  then show ?case
    using enc4_safe [of "of_char a * 65536 + of_char b * 256"] group_bounds [of a b "CHR 0x00"]
      set_take_subset [of 3 "enc4 (of_char a * 65536 + of_char b * 256)"] by auto
next
  case (4 a b c rest)
  then show ?case
    using enc4_safe [of "of_char a * 65536 + of_char b * 256 + of_char c"] group_bounds [of a b c] by auto
qed simp

lemma DecodeString_Encode: "DecodeString (EncodeToString bs) = Some bs"
proof -
  have "filter (\<lambda>c. c \<noteq> CHR 0x0A \<and> c \<noteq> CHR 0x0D) (EncodeToString bs) = EncodeToString bs"
    using EncodeToString_safe [of bs] by (auto simp: filter_id_conv)
  then show ?thesis by (simp only: DecodeString_def b64_groups_Encode)
qed

end
