(* ===== verification/Known_Hosts.thy ===== *)
theory Known_Hosts
  imports Ssh_Config Go_Crypto
begin

text \<open>
  ssh_config.go, the known_hosts part: \<open>matchesHashedHost\<close> and \<open>knownHostAlgorithms\<close>, which
  collects the key types the known_hosts files record for the address of an alias.
  \<open>knownhosts.Normalize\<close> (golang.org/x/crypto) and \<open>os.ReadFile\<close> are parameters.
\<close>

section \<open>Hashed entries\<close>

definition matchesHashedHost :: "string \<Rightarrow> string \<Rightarrow> bool" where
  "matchesHashedHost pattern host =
     (case SplitN pattern CHR ''|'' 4 of
        [p0, p1, p2, p3] \<Rightarrow>
          if p0 \<noteq> [] \<or> p1 \<noteq> ''1'' then False
          else
            (case DecodeString p2 of
               None \<Rightarrow> False
             | Some salt \<Rightarrow>
                 (case DecodeString p3 of
                    None \<Rightarrow> False
                  | Some hashBytes \<Rightarrow> hmac_sha1 salt host = hashBytes))
      | _ \<Rightarrow> False)"

section \<open>Collecting the algorithms\<close>

text \<open>The variables of the loops: the algorithms found and the set of them as a map.\<close>

record algo_state =
  algos :: "string list"
  seen :: "string \<Rightarrow> bool"

definition no_algos :: algo_state where
  "no_algos = \<lparr>algos = [], seen = (\<lambda>_. False)\<rparr>"

definition host_matches :: "string \<Rightarrow> string \<Rightarrow> bool" where
  "host_matches norm h =
     (if HasPrefix h ''|1|'' then matchesHashedHost h norm else h = norm)"

fun scan_hosts :: "string \<Rightarrow> string \<Rightarrow> string list \<Rightarrow> algo_state \<Rightarrow> algo_state" where
  "scan_hosts norm key [] st = st"
| "scan_hosts norm key (h # hs) st =
     (if host_matches norm h \<and> \<not> seen st key
      then st\<lparr>algos := algos st @ [key], seen := (seen st)(key := True)\<rparr>
      else scan_hosts norm key hs st)"

definition scan_line :: "string \<Rightarrow> string \<Rightarrow> algo_state \<Rightarrow> algo_state" where
  "scan_line norm raw st =
     (let line = TrimSpace raw in
      if line = [] \<or> hd line = CHR ''#'' \<or> hd line = CHR ''@'' then st
      else
        (let fields = Fields line in
         if length fields < 3 then st
         else scan_hosts norm (fields ! 1) (Split (fields ! 0) CHR '','') st))"

fun scan_lines :: "string \<Rightarrow> string list \<Rightarrow> algo_state \<Rightarrow> algo_state" where
  "scan_lines norm [] st = st"
| "scan_lines norm (l # ls) st = scan_lines norm ls (scan_line norm l st)"

fun scan_files ::
  "(string \<Rightarrow> err + string) \<Rightarrow> string \<Rightarrow> string \<Rightarrow> string list \<Rightarrow> algo_state \<Rightarrow> algo_state" where
  "scan_files readFile homeDir norm [] st = st"
| "scan_files readFile homeDir norm (f # fs) st =
     (case readFile (expand homeDir f) of
        Inl e \<Rightarrow> scan_files readFile homeDir norm fs st
      | Inr text \<Rightarrow> scan_files readFile homeDir norm fs (scan_lines norm (Lines text) st))"

definition knownHostAlgorithms ::
  "(string \<Rightarrow> err + string) \<Rightarrow> (string \<Rightarrow> string) \<Rightarrow> string \<Rightarrow> sshConfig \<Rightarrow> string \<Rightarrow> string list" where
  "knownHostAlgorithms readFile normalizeAddr homeDir cw hostAlias =
     (case get cw hostAlias ''StrictHostKeyChecking'' of
        Inl e \<Rightarrow> []
      | Inr strict \<Rightarrow>
          if strict = ''no'' then []
          else
            (case get cw hostAlias ''UserKnownHostsFile'' of
               Inl e \<Rightarrow> []
             | Inr files \<Rightarrow>
                 if files = [] then []
                 else
                   (let addr = ConnectAddr cw hostAlias in
                    if addr = [] then []
                    else algos (scan_files readFile homeDir (normalizeAddr addr)
                           (Split files CHR '' '') no_algos))))"

section \<open>The entries for a host\<close>

text \<open>
  The specification of the loops: the key types of the entries for \<open>norm\<close>, in file order, of
  which the code keeps the first occurrences.
\<close>

definition line_keys :: "string \<Rightarrow> string \<Rightarrow> string list" where
  "line_keys norm raw =
     (let line = TrimSpace raw; fields = Fields line in
      if line = [] \<or> hd line = CHR ''#'' \<or> hd line = CHR ''@'' \<or> length fields < 3 then []
      else if list_ex (host_matches norm) (Split (fields ! 0) CHR '','') then [fields ! 1] else [])"

definition file_keys :: "(string \<Rightarrow> err + string) \<Rightarrow> string \<Rightarrow> string \<Rightarrow> string \<Rightarrow> string list" where
  "file_keys readFile homeDir norm f =
     (case readFile (expand homeDir f) of
        Inl e \<Rightarrow> [] | Inr text \<Rightarrow> concat (map (line_keys norm) (Lines text)))"

definition firsts :: "'a list \<Rightarrow> 'a list" where
  "firsts xs = rev (remdups (rev xs))"

lemma set_firsts [simp]: "set (firsts xs) = set xs"
  by (simp add: firsts_def)

lemma distinct_firsts [simp]: "distinct (firsts xs)"
  by (simp add: firsts_def)

lemma firsts_Nil [simp]: "firsts [] = []"
  by (simp add: firsts_def)

lemma firsts_snoc: "firsts (xs @ [x]) = (if x \<in> set xs then firsts xs else firsts xs @ [x])"
  by (simp add: firsts_def)

text \<open>The state after the entries \<open>ks\<close> were read.\<close>

definition algos_for :: "string list \<Rightarrow> algo_state" where
  "algos_for ks = \<lparr>algos = firsts ks, seen = (\<lambda>k. k \<in> set ks)\<rparr>"

lemma algos_algos_for [simp]: "algos (algos_for ks) = firsts ks"
  by (simp add: algos_for_def)

lemma no_algos_for: "no_algos = algos_for []"
  by (simp add: no_algos_def algos_for_def)

lemma scan_hosts_for:
  "scan_hosts norm key hs (algos_for ks) =
     algos_for (ks @ (if list_ex (host_matches norm) hs then [key] else []))"
proof (induction hs)
  case Nil
  then show ?case by simp
next
  case (Cons h hs)
  show ?case
  proof (cases "key \<in> set ks")
    case True
    then have "algos_for (ks @ [key]) = algos_for ks"
      by (auto simp: algos_for_def firsts_snoc)
    with Cons True show ?thesis by (auto simp: algos_for_def)
  next
    case False
    with Cons show ?thesis by (auto simp: algos_for_def firsts_snoc)
  qed
qed

lemma scan_line_for: "scan_line norm raw (algos_for ks) = algos_for (ks @ line_keys norm raw)"
  by (simp add: scan_line_def line_keys_def Let_def scan_hosts_for)

lemma scan_lines_for:
  "scan_lines norm ls (algos_for ks) = algos_for (ks @ concat (map (line_keys norm) ls))"
  by (induction ls arbitrary: ks) (simp_all add: scan_line_for)

lemma scan_files_for:
  "scan_files readFile homeDir norm fs (algos_for ks) =
     algos_for (ks @ concat (map (file_keys readFile homeDir norm) fs))"
  by (induction fs arbitrary: ks) (simp_all add: file_keys_def scan_lines_for split: sum.splits)

section \<open>Properties\<close>

text \<open>
  C20. When host keys are checked and the address is known, \<open>knownHostAlgorithms\<close> returns the
  key types of the entries for the address, over all readable files in order, each at its
  first occurrence.
\<close>

theorem knownHostAlgorithms_spec:
  assumes "get cw hostAlias ''StrictHostKeyChecking'' = Inr strict" and "strict \<noteq> ''no''"
    and "get cw hostAlias ''UserKnownHostsFile'' = Inr files"
    and "files \<noteq> []" and "ConnectAddr cw hostAlias \<noteq> []"
  shows "knownHostAlgorithms readFile normalizeAddr homeDir cw hostAlias =
    firsts (concat (map (file_keys readFile homeDir (normalizeAddr (ConnectAddr cw hostAlias)))
      (Split files CHR '' '')))"
  using assms by (simp add: knownHostAlgorithms_def Let_def no_algos_for scan_files_for)

definition kh_config :: sshConfig where
  "kh_config =
     \<lparr>Get = (\<lambda>_ k. Inr (if k = ''UserKnownHostsFile'' then ''k1 k2'' else if k = ''Port'' then ''22'' else [])),
      Default = (\<lambda>_. []), Hosts = []\<rparr>"

definition kh_read :: "string \<Rightarrow> err + string" where
  "kh_read f =
     (if f = ''k1'' then Inr (''h,m ssh-rsa A'' @ [newline] @ ''# m x y'' @ [newline] @ ''m ecdsa B'')
      else if f = ''k2'' then Inr ''m ssh-rsa C'' else Inl (Sentinel ErrNotExist))"

lemma knownHostAlgorithms_spec_witness:
  "knownHostAlgorithms kh_read (\<lambda>_. ''m'') [] kh_config ''m'' = [''ssh-rsa'', ''ecdsa'']"
proof -
  have h: "get kh_config ''m'' ''StrictHostKeyChecking'' = Inr []" "[] \<noteq> ''no''"
    "get kh_config ''m'' ''UserKnownHostsFile'' = Inr ''k1 k2''" "''k1 k2'' \<noteq> []"
    "ConnectAddr kh_config ''m'' \<noteq> []"
    by code_simp+
  have "firsts (concat (map (file_keys kh_read [] ''m'') (Split ''k1 k2'' CHR '' ''))) =
      [''ssh-rsa'', ''ecdsa'']"
    by code_simp
  with knownHostAlgorithms_spec [OF h, of kh_read "\<lambda>_. ''m''" "[]"] show ?thesis by simp
qed

text \<open>
  The algorithms are never constrained when host key checking is off, and never hold a
  duplicate.
\<close>

theorem knownHostAlgorithms_unconstrained:
  "distinct (knownHostAlgorithms readFile normalizeAddr homeDir cw hostAlias) \<and>
   (get cw hostAlias ''StrictHostKeyChecking'' = Inr ''no'' \<longrightarrow>
     knownHostAlgorithms readFile normalizeAddr homeDir cw hostAlias = [])"
  by (auto simp: knownHostAlgorithms_def Let_def no_algos_for scan_files_for split: sum.splits)

definition off_config :: sshConfig where
  "off_config = \<lparr>Get = (\<lambda>_ _. Inr ''no''), Default = (\<lambda>_. []), Hosts = []\<rparr>"

lemma knownHostAlgorithms_unconstrained_witness: "knownHostAlgorithms kh_read id [] off_config ''m'' = []"
  by (rule knownHostAlgorithms_unconstrained [THEN conjunct2, rule_format]) code_simp

text \<open>The entry OpenSSH writes for a host, hashed with a salt.\<close>

definition hashed_entry :: "string \<Rightarrow> string \<Rightarrow> string" where
  "hashed_entry salt host = ''|1|'' @ EncodeToString salt @ ''|'' @ EncodeToString (hmac_sha1 salt host)"

lemma SplitN_last: "SplitN s c (Suc 0) = [s]"
  by simp

lemma SplitN_part: "c \<notin> set p \<Longrightarrow> SplitN (p @ c # s) c (Suc (Suc n)) = p # SplitN s c (Suc n)"
  by (induction p) auto

lemma SplitN_hashed_entry:
  "SplitN (hashed_entry salt host) CHR ''|'' 4 =
     [[], ''1'', EncodeToString salt, EncodeToString (hmac_sha1 salt host)]"
proof -
  have "CHR ''|'' \<notin> set (EncodeToString salt)" using EncodeToString_safe [of salt] by auto
  then show ?thesis
    using SplitN_part [of "CHR ''|''" "[]" _ 2] SplitN_part [of "CHR ''|''" "''1''" _ 1]
      SplitN_part [of "CHR ''|''" "EncodeToString salt" _ 0]
    by (simp add: hashed_entry_def numeral_eq_Suc)
qed

text \<open>
  A hashed entry matches a host exactly when the salted hash of the host is the recorded
  one; in particular it matches the host it was made for.
\<close>

theorem matchesHashedHost_iff:
  "matchesHashedHost (hashed_entry salt host) host' \<longleftrightarrow> hmac_sha1 salt host' = hmac_sha1 salt host"
  by (simp add: matchesHashedHost_def SplitN_hashed_entry DecodeString_Encode)

end

