(* ===== verification/Client_Config.thy ===== *)
theory Client_Config
  imports Known_Hosts
begin

text \<open>
  ssh_config.go, building the \<open>ssh.ClientConfig\<close> of a host alias: the host key callback,
  the signers of the SSH agent and of the identity file, the user and the dial timeout.

  The operating system and golang.org/x/crypto are the fields of \<open>client_env\<close>: the calls the
  code makes to them, as functions. A signer, an agent connection and a known-hosts callback
  are opaque.
\<close>

record ('conn, 'signer, 'cb) client_env =
  homeDir :: string
  ConnectTimeout :: int
  ReadFile :: "string \<Rightarrow> err + string"
  Stat :: "string \<Rightarrow> error"
  ParsePrivateKey :: "string \<Rightarrow> err + 'signer"
  AuthSock :: string
  DialUnix :: "string \<Rightarrow> err + 'conn"
  Signers :: "'conn \<Rightarrow> err + 'signer list"
  NewKnownHosts :: "string list \<Rightarrow> err + 'cb"
  Normalize :: "string \<Rightarrow> string"
  CurrentUser :: "err + string"

datatype 'cb callback = InsecureIgnoreHostKey | KnownHosts 'cb

record ('signer, 'cb) clientConfig =
  User :: string
  Auth :: "'signer list"
  HostKeyCallback :: "'cb callback"
  HostKeyAlgorithms :: "string list"
  Timeout :: int

section \<open>Host key callback\<close>

fun existing_files ::
  "('conn, 'signer, 'cb) client_env \<Rightarrow> string list \<Rightarrow> string list \<Rightarrow> string list" where
  "existing_files env [] userKnownHostsFiles = userKnownHostsFiles"
| "existing_files env (file # files) userKnownHostsFiles =
     (let file' = expand (homeDir env) file in
      if errors_Is (Stat env file') ErrNotExist then existing_files env files userKnownHostsFiles
      else existing_files env files (userKnownHostsFiles @ [file']))"

definition createHostKeyCallback ::
  "('conn, 'signer, 'cb) client_env \<Rightarrow> string list \<Rightarrow> err + 'cb callback" where
  "createHostKeyCallback env paths =
     (case NewKnownHosts env (existing_files env paths []) of
        Inl e \<Rightarrow> Inl e
      | Inr cb \<Rightarrow> Inr (KnownHosts cb))"

definition getHostKeyCallback ::
  "('conn, 'signer, 'cb) client_env \<Rightarrow> sshConfig \<Rightarrow> string \<Rightarrow> err + 'cb callback" where
  "getHostKeyCallback env cw hostAlias =
     (case get cw hostAlias ''StrictHostKeyChecking'' of
        Inl e \<Rightarrow> Inl e
      | Inr strict \<Rightarrow>
          if strict = ''no'' then Inr InsecureIgnoreHostKey
          else
            (case get cw hostAlias ''UserKnownHostsFile'' of
               Inl e \<Rightarrow> Inl e
             | Inr files \<Rightarrow>
                 (case createHostKeyCallback env (Split files CHR '' '') of
                    Inl e \<Rightarrow> Inl (Wrapf ''iago: failed to create host key callback for %s: %w'' [hostAlias] e)
                  | Inr cb \<Rightarrow> Inr cb)))"

section \<open>Signers\<close>

definition fileSigner :: "('conn, 'signer, 'cb) client_env \<Rightarrow> string \<Rightarrow> 'signer option" where
  "fileSigner env file =
     (case ReadFile env (expand (homeDir env) file) of
        Inl e \<Rightarrow> None
      | Inr buffer \<Rightarrow> (case ParsePrivateKey env buffer of Inl e \<Rightarrow> None | Inr key \<Rightarrow> Some key))"

definition agentSigners :: "('conn, 'signer, 'cb) client_env \<Rightarrow> 'signer list" where
  "agentSigners env =
     (case DialUnix env (AuthSock env) of
        Inl e \<Rightarrow> []
      | Inr sshAgent \<Rightarrow> (case Signers env sshAgent of Inl e \<Rightarrow> [] | Inr signers \<Rightarrow> signers))"

section \<open>The client configuration\<close>

definition username ::
  "('conn, 'signer, 'cb) client_env \<Rightarrow> sshConfig \<Rightarrow> string \<Rightarrow> err + string" where
  "username env cw hostAlias =
     (case get cw hostAlias ''User'' of
        Inl e \<Rightarrow> Inl e
      | Inr u \<Rightarrow>
          if u = [] then
            (case CurrentUser env of
               Inl e \<Rightarrow> Inl (Wrapf ''iago: failed to get current user: %w'' [] e)
             | Inr current \<Rightarrow> Inr current)
          else Inr u)"

definition ClientConfig ::
  "('conn, 'signer, 'cb) client_env \<Rightarrow> sshConfig \<Rightarrow> string \<Rightarrow> err + ('signer, 'cb) clientConfig" where
  "ClientConfig env cw hostAlias =
     (case getHostKeyCallback env cw hostAlias of
        Inl e \<Rightarrow> Inl e
      | Inr hostKeyCallback \<Rightarrow>
     (case connectTimeout (ConnectTimeout env) cw hostAlias of
        Inl e \<Rightarrow> Inl e
      | Inr timeout \<Rightarrow>
     (let signers = agentSigners env in
      case get cw hostAlias ''IdentityFile'' of
        Inl e \<Rightarrow> Inl e
      | Inr identityFile \<Rightarrow>
     (let signers' = (case fileSigner env identityFile of
                        None \<Rightarrow> signers | Some pubkey \<Rightarrow> signers @ [pubkey]) in
      if signers' = []
      then Inl (Errorf ''iago: no valid authentication methods found for %s'' [hostAlias])
      else
        (case username env cw hostAlias of
           Inl e \<Rightarrow> Inl e
         | Inr u \<Rightarrow>
             Inr \<lparr>User = u, Auth = signers', HostKeyCallback = hostKeyCallback,
               HostKeyAlgorithms =
                 knownHostAlgorithms (ReadFile env) (Normalize env) (homeDir env) cw hostAlias,
               Timeout = timeout\<rparr>)))))"

section \<open>Properties\<close>

lemma existing_files_eq:
  "existing_files env files acc =
     acc @ filter (\<lambda>f. \<not> errors_Is (Stat env f) ErrNotExist) (map (expand (homeDir env)) files)"
  by (induction env files acc rule: existing_files.induct) (simp_all add: Let_def)

lemma getHostKeyCallback_Inr:
  assumes "getHostKeyCallback env cw a = Inr cb"
  shows "(get cw a ''StrictHostKeyChecking'' = Inr ''no'' \<and> cb = InsecureIgnoreHostKey) \<or>
    (\<exists>strict files kh. get cw a ''StrictHostKeyChecking'' = Inr strict \<and> strict \<noteq> ''no'' \<and>
      get cw a ''UserKnownHostsFile'' = Inr files \<and> cb = KnownHosts kh \<and>
      NewKnownHosts env (filter (\<lambda>f. \<not> errors_Is (Stat env f) ErrNotExist)
        (map (expand (homeDir env)) (Split files CHR '' ''))) = Inr kh)"
  using assms
  by (auto simp: getHostKeyCallback_def createHostKeyCallback_def existing_files_eq
      split: sum.splits if_splits)

lemma ClientConfig_Inr:
  assumes "ClientConfig env cw a = Inr c"
  obtains identityFile where
    "getHostKeyCallback env cw a = Inr (HostKeyCallback c)"
    "connectTimeout (ConnectTimeout env) cw a = Inr (Timeout c)"
    "get cw a ''IdentityFile'' = Inr identityFile"
    "Auth c = agentSigners env @ (case fileSigner env identityFile of None \<Rightarrow> [] | Some k \<Rightarrow> [k])"
    "Auth c \<noteq> []" "username env cw a = Inr (User c)"
    "HostKeyAlgorithms c = knownHostAlgorithms (ReadFile env) (Normalize env) (homeDir env) cw a"
  using assms
  by (fastforce simp: ClientConfig_def Let_def split: sum.splits if_splits option.splits)

text \<open>C21. A client configuration ignores host keys exactly when StrictHostKeyChecking is the
  word no for the alias; otherwise keys are checked against the known-hosts files that are
  not missing, with their leading tilde expanded, in the configured order.\<close>

theorem ClientConfig_host_keys:
  assumes "ClientConfig env cw a = Inr c"
  shows "(HostKeyCallback c = InsecureIgnoreHostKey \<longleftrightarrow>
      get cw a ''StrictHostKeyChecking'' = Inr ''no'') \<and>
    (\<forall>kh. HostKeyCallback c = KnownHosts kh \<longrightarrow>
      (\<exists>files. get cw a ''UserKnownHostsFile'' = Inr files \<and>
        NewKnownHosts env (filter (\<lambda>f. \<not> errors_Is (Stat env f) ErrNotExist)
          (map (expand (homeDir env)) (Split files CHR '' ''))) = Inr kh))"
proof -
  from assms obtain f where "getHostKeyCallback env cw a = Inr (HostKeyCallback c)"
    by (rule ClientConfig_Inr)
  from getHostKeyCallback_Inr [OF this] show ?thesis by auto
qed

text \<open>A client configuration always has a signer: those of the agent first, then the one
  of the identity file if it can be read and parsed; and its user is never the empty
  configured one but then the current user.\<close>

theorem ClientConfig_auth:
  assumes "ClientConfig env cw a = Inr c"
  shows "Auth c \<noteq> [] \<and>
    (\<exists>identityFile. get cw a ''IdentityFile'' = Inr identityFile \<and>
      Auth c = agentSigners env @ (case fileSigner env identityFile of None \<Rightarrow> [] | Some k \<Rightarrow> [k])) \<and>
    (\<exists>u. get cw a ''User'' = Inr u \<and> (if u = [] then CurrentUser env = Inr (User c) else User c = u))"
proof -
  from assms obtain f where f: "get cw a ''IdentityFile'' = Inr f"
    "Auth c = agentSigners env @ (case fileSigner env f of None \<Rightarrow> [] | Some k \<Rightarrow> [k])"
    "Auth c \<noteq> []" "username env cw a = Inr (User c)"
    by (rule ClientConfig_Inr)
  then show ?thesis by (auto simp: username_def split: sum.splits if_splits)
qed

definition sample_client :: "(unit, string, string list) client_env" where
  "sample_client =
     \<lparr>homeDir = ''/home/me'', ConnectTimeout = 0,
      ReadFile = (\<lambda>f. if f = ''/home/me/.ssh/id'' then Inr ''KEY'' else Inl (Sentinel ErrNotExist)),
      Stat = (\<lambda>f. if f = ''/home/me/kh'' then None else Some (Sentinel ErrNotExist)),
      ParsePrivateKey = Inr, AuthSock = ''/agent'', DialUnix = (\<lambda>s. Inr ()),
      Signers = (\<lambda>c. Inr [''AGENT'']), NewKnownHosts = Inr, Normalize = id,
      CurrentUser = Inr ''me''\<rparr>"

definition sample_options :: "string \<Rightarrow> sshConfig" where
  "sample_options strict =
     \<lparr>Get = (\<lambda>a k. Inr (if k = ''StrictHostKeyChecking'' then strict
               else if k = ''UserKnownHostsFile'' then ''~/kh ~/kh2''
               else if k = ''IdentityFile'' then ''~/.ssh/id'' else [])),
      Default = (\<lambda>k. if k = ''Port'' then ''22'' else []), Hosts = []\<rparr>"

lemma sample_ClientConfig:
  "ClientConfig sample_client (sample_options ''yes'') ''h'' =
     Inr \<lparr>User = ''me'', Auth = [''AGENT'', ''KEY''], HostKeyCallback = KnownHosts [''/home/me/kh''],
       HostKeyAlgorithms = [], Timeout = 0\<rparr>"
  by code_simp

lemma ClientConfig_host_keys_witness:
  "get (sample_options ''yes'') ''h'' ''StrictHostKeyChecking'' \<noteq> Inr ''no''"
  using ClientConfig_host_keys [OF sample_ClientConfig] by simp

lemma ClientConfig_auth_witness: "[''AGENT'', ''KEY''] \<noteq> ([] :: string list)"
  using ClientConfig_auth [OF sample_ClientConfig] by simp

end
