(* ===== verification/Go_IO.thy ===== *)
theory Go_IO
  imports Go_Error
begin

text \<open>
  Code that calls out of the repository (ssh, sftp, the agent, the operating system): a state
  passed along, which is the opaque state of what is called (\<open>ext\<close>) and a ghost trace of
  the connections opened and closed. A fallible call returns \<open>Inl\<close> its non-nil error or
  \<open>Inr\<close> its value. The trace is what the properties on ownership and leaks speak of.
\<close>

datatype resource = RClient | RJump | RSftp | RAgent | RSession

datatype event =
    Opened resource
  | Closed resource
  | DialedJump string
  | RequestedForwarding
  | StoppedKeepAlive

record 'w io_state =
  ext :: 'w
  trace :: "event list"

type_synonym ('w, 'a) io = "'w io_state \<Rightarrow> (err + 'a) \<times> 'w io_state"

definition emit :: "event \<Rightarrow> 'w io_state \<Rightarrow> 'w io_state" where
  "emit e st = st\<lparr>trace := trace st @ [e]\<rparr>"

text \<open>A call that opens a connection, one that closes it, and one that does neither.\<close>

definition open_call :: "resource \<Rightarrow> ('w \<Rightarrow> (err + 'a) \<times> 'w) \<Rightarrow> ('w, 'a) io" where
  "open_call r c st =
     (case c (ext st) of
        (Inl e, w) \<Rightarrow> (Inl e, st\<lparr>ext := w\<rparr>)
      | (Inr v, w) \<Rightarrow> (Inr v, emit (Opened r) (st\<lparr>ext := w\<rparr>)))"

definition close_call :: "resource \<Rightarrow> ('w \<Rightarrow> error \<times> 'w) \<Rightarrow> 'w io_state \<Rightarrow> error \<times> 'w io_state" where
  "close_call r c st = (case c (ext st) of (e, w) \<Rightarrow> (e, emit (Closed r) (st\<lparr>ext := w\<rparr>)))"

definition plain_call :: "('w \<Rightarrow> 'a \<times> 'w) \<Rightarrow> 'w io_state \<Rightarrow> 'a \<times> 'w io_state" where
  "plain_call c st = (case c (ext st) of (v, w) \<Rightarrow> (v, st\<lparr>ext := w\<rparr>))"

text \<open>\<open>if err != nil { return err }\<close> after a call.\<close>

definition bind_io :: "('w, 'a) io \<Rightarrow> ('a \<Rightarrow> ('w, 'b) io) \<Rightarrow> ('w, 'b) io" where
  "bind_io m f st = (case m st of (Inl e, st') \<Rightarrow> (Inl e, st') | (Inr v, st') \<Rightarrow> f v st')"

section \<open>What a piece of code adds to the trace\<close>

text \<open>
  \<open>adds st st' es\<close>: the run from \<open>st\<close> to \<open>st'\<close> appended the events \<open>es\<close>. Its rules
  compose along the calls, so the effect of a whole function is found by resolution.
\<close>

definition adds :: "'w io_state \<Rightarrow> 'w io_state \<Rightarrow> event list \<Rightarrow> bool" where
  "adds st st' es \<longleftrightarrow> trace st' = trace st @ es"

text \<open>How many connections of a kind a trace leaves open.\<close>

definition balance :: "resource \<Rightarrow> event list \<Rightarrow> int" where
  "balance r es = int (count_list es (Opened r)) - int (count_list es (Closed r))"

lemma trace_emit [simp]: "trace (emit e st) = trace st @ [e]"
  by (simp add: emit_def)

lemma ext_emit [simp]: "ext (emit e st) = ext st"
  by (simp add: emit_def)

lemma adds_refl [simp, intro]: "adds st st []"
  by (simp add: adds_def)

lemma adds_trans: "adds st st' es \<Longrightarrow> adds st' st'' fs \<Longrightarrow> adds st st'' (es @ fs)"
  by (simp add: adds_def)

lemma adds_emit: "adds st (emit e st) [e]"
  by (simp add: adds_def)

lemma adds_open: "open_call r c st = (x, st') \<Longrightarrow> adds st st' (case x of Inl _ \<Rightarrow> [] | Inr _ \<Rightarrow> [Opened r])"
  by (auto simp: open_call_def adds_def split: prod.splits sum.splits)

lemma adds_open_Inl: "open_call r c st = (Inl e, st') \<Longrightarrow> adds st st' []"
  using adds_open by fastforce

lemma adds_open_Inr: "open_call r c st = (Inr v, st') \<Longrightarrow> adds st st' [Opened r]"
  using adds_open by fastforce

lemma adds_close: "close_call r c st = (e, st') \<Longrightarrow> adds st st' [Closed r]"
  by (auto simp: close_call_def adds_def split: prod.splits)

lemma adds_plain: "plain_call c st = (v, st') \<Longrightarrow> adds st st' []"
  by (auto simp: plain_call_def adds_def split: prod.splits)

lemma adds_fun: "adds st st' es \<Longrightarrow> adds st st' fs \<Longrightarrow> es = fs"
  by (simp add: adds_def)

lemma balance_simps [simp]:
  "balance r [] = 0"
  "balance r (es @ fs) = balance r es + balance r fs"
  "balance r (Opened s # es) = of_bool (r = s) + balance r es"
  "balance r (Closed s # es) = balance r es - of_bool (r = s)"
  "balance r (DialedJump p # es) = balance r es"
  "balance r (RequestedForwarding # es) = balance r es"
  "balance r (StoppedKeepAlive # es) = balance r es"
  by (auto simp: balance_def)

lemma bind_io_Inl [simp]: "m st = (Inl e, st') \<Longrightarrow> bind_io m f st = (Inl e, st')"
  by (simp add: bind_io_def)

lemma bind_io_Inr [simp]: "m st = (Inr v, st') \<Longrightarrow> bind_io m f st = f v st'"
  by (simp add: bind_io_def)

lemma bind_io_cases:
  assumes "bind_io m f st = (x, st')"
  obtains (fail) e where "m st = (Inl e, st')" "x = Inl e"
  | (ok) v st1 where "m st = (Inr v, st1)" "f v st1 = (x, st')"
  using assms by (auto simp: bind_io_def split: prod.splits sum.splits)

end
