(* ===== verification/Ssh_Host.thy ===== *)
theory Ssh_Host
  imports Go_IO Go_Strings
begin

text \<open>
  ssh.go, the host: wrapping an established client (\<open>newHostFromClient\<close>), fetching the
  remote environment (\<open>fetchEnv\<close>), the accessors, agent forwarding on the first session,
  \<open>Execute\<close> and \<open>Close\<close>.

  The packages ssh, sftp and agent are the fields of \<open>ssh_lib\<close>; clients, agent connections,
  sftp clients and sessions are opaque, and the calls run on the opaque state \<open>'w\<close>.
\<close>

record ('cl, 'ac, 'sftp, 'sess, 'w) ssh_lib =
  SSH_AUTH_SOCK :: string
  DialAgent :: "string \<Rightarrow> 'w \<Rightarrow> (err + 'ac) \<times> 'w"
  ForwardToAgent :: "'cl \<Rightarrow> 'ac \<Rightarrow> 'w \<Rightarrow> error \<times> 'w"
  CloseAgent :: "'ac \<Rightarrow> 'w \<Rightarrow> error \<times> 'w"
  NewSftp :: "'cl \<Rightarrow> 'w \<Rightarrow> (err + 'sftp) \<times> 'w"
  CloseSftp :: "'sftp \<Rightarrow> 'w \<Rightarrow> error \<times> 'w"
  NewSession :: "'cl \<Rightarrow> 'w \<Rightarrow> (err + 'sess) \<times> 'w"
  SessionOutput :: "'sess \<Rightarrow> string \<Rightarrow> 'w \<Rightarrow> (err + string) \<times> 'w"
  SessionRun :: "'sess \<Rightarrow> string \<Rightarrow> 'w \<Rightarrow> (string \<times> error) \<times> 'w"
  CloseSession :: "'sess \<Rightarrow> 'w \<Rightarrow> error \<times> 'w"
  RequestAgentForwarding :: "'sess \<Rightarrow> 'w \<Rightarrow> error \<times> 'w"
  CloseClient :: "'cl \<Rightarrow> 'w \<Rightarrow> error \<times> 'w"
  RemoteAddr :: "'cl \<Rightarrow> string"

text \<open>
  \<open>stopKeepAlive\<close> is the interval of the running keepalives, if any. \<open>fsys\<close> is the client
  and root directory given to \<open>sftpfs.New\<close>.
\<close>

record ('cl, 'ac, 'sftp, 'v) sshHost =
  name :: string
  env :: "string \<rightharpoonup> string"
  client :: 'cl
  sftpClient :: 'sftp
  fsys :: "'sftp \<times> string"
  vars :: "string \<rightharpoonup> 'v"
  forwardAgent :: bool
  agentConn :: "'ac option"
  stopKeepAlive :: "int option"
  agentFwdOnce :: bool

section \<open>The remote environment\<close>

fun parse_env :: "string list \<Rightarrow> (string \<rightharpoonup> string) \<Rightarrow> (string \<rightharpoonup> string)" where
  "parse_env [] m = m"
| "parse_env (line # ls) m =
     (case Cut line CHR ''='' of (key, value, found) \<Rightarrow>
        if found then parse_env ls (m(key \<mapsto> TrimSpace value)) else parse_env ls m)"

definition fetchEnv ::
  "('cl, 'ac, 'sftp, 'sess, 'w) ssh_lib \<Rightarrow> 'cl \<Rightarrow> ('w, string \<rightharpoonup> string) io" where
  "fetchEnv L cli st =
     (case open_call RSession (NewSession L cli) st of
        (Inl e, st1) \<Rightarrow> (Inl e, st1)
      | (Inr cmd, st1) \<Rightarrow>
          (case plain_call (SessionOutput L cmd ''env'') st1 of
             (out, st2) \<Rightarrow>
               (case close_call RSession (CloseSession L cmd) st2 of
                  (closed, st3) \<Rightarrow>
                    (case out of
                       Inl e \<Rightarrow> (Inl e, st3)
                     | Inr text \<Rightarrow>
                         (case safeClose closed None [EOF] of
                            Some e \<Rightarrow> (Inl e, st3)
                          | None \<Rightarrow> (Inr (parse_env (Lines text) Map.empty), st3))))))"

section \<open>Wrapping a client\<close>

text \<open>The agent connection of a host that forwards, registered with the client.\<close>

definition setup_agent ::
  "('cl, 'ac, 'sftp, 'sess, 'w) ssh_lib \<Rightarrow> string \<Rightarrow> 'cl \<Rightarrow> bool \<Rightarrow> ('w, 'ac option) io" where
  "setup_agent L nm cl fwd st =
     (if \<not> fwd then (Inr None, st)
      else
        (let sock = SSH_AUTH_SOCK L in
         if sock = []
         then (Inl (Errorf ''iago: ForwardAgent requested for %s but SSH_AUTH_SOCK is not set'' [nm]), st)
         else
           (case open_call RAgent (DialAgent L sock) st of
              (Inl e, st1) \<Rightarrow>
                (Inl (Wrapf ''iago: ForwardAgent requested for %s but could not connect to SSH agent: %w'' [nm] e), st1)
            | (Inr ac, st1) \<Rightarrow>
                (case plain_call (ForwardToAgent L cl ac) st1 of
                   (None, st2) \<Rightarrow> (Inr (Some ac), st2)
                 | (Some e, st2) \<Rightarrow>
                     (case close_call RAgent (CloseAgent L ac) st2 of
                        (_, st3) \<Rightarrow>
                          (Inl (Wrapf ''iago: failed to set up agent forwarding for %s: %w'' [nm] e), st3))))))"

definition close_agent ::
  "('cl, 'ac, 'sftp, 'sess, 'w) ssh_lib \<Rightarrow> 'ac option \<Rightarrow> 'w io_state \<Rightarrow> error \<times> 'w io_state" where
  "close_agent L ac st =
     (case ac of None \<Rightarrow> (None, st) | Some c \<Rightarrow> close_call RAgent (CloseAgent L c) st)"

definition newHostFromClient ::
  "('cl, 'ac, 'sftp, 'sess, 'w) ssh_lib \<Rightarrow> string \<Rightarrow> 'cl \<Rightarrow> bool \<Rightarrow> int
     \<Rightarrow> ('w, ('cl, 'ac, 'sftp, 'v) sshHost) io" where
  "newHostFromClient L nm cl fwd keepAlive st =
     (case setup_agent L nm cl fwd st of
        (Inl e, st1) \<Rightarrow> (Inl e, st1)
      | (Inr ac, st1) \<Rightarrow>
          (case open_call RSftp (NewSftp L cl) st1 of
             (Inl e, st2) \<Rightarrow> (case close_agent L ac st2 of (_, st3) \<Rightarrow> (Inl e, st3))
           | (Inr sftp, st2) \<Rightarrow>
               (case fetchEnv L cl st2 of
                  (Inl e, st3) \<Rightarrow> (case close_agent L ac st3 of (_, st4) \<Rightarrow> (Inl e, st4))
                | (Inr environ, st3) \<Rightarrow>
                    (Inr \<lparr>name = nm, env = environ, client = cl, sftpClient = sftp,
                       fsys = (sftp, ''/''), vars = Map.empty, forwardAgent = fwd, agentConn = ac,
                       stopKeepAlive = (if 0 < keepAlive then Some keepAlive else None),
                       agentFwdOnce = False\<rparr>, st3))))"

section \<open>Operations of a host\<close>

definition Address ::
  "('cl, 'ac, 'sftp, 'sess, 'w) ssh_lib \<Rightarrow> ('cl, 'ac, 'sftp, 'v) sshHost \<Rightarrow> string" where
  "Address L h = RemoteAddr L (client h)"

definition GetEnv :: "('cl, 'ac, 'sftp, 'v) sshHost \<Rightarrow> string \<Rightarrow> string" where
  "GetEnv h key = (case env h key of None \<Rightarrow> [] | Some v \<Rightarrow> v)"

definition SetVar ::
  "('cl, 'ac, 'sftp, 'v) sshHost \<Rightarrow> string \<Rightarrow> 'v \<Rightarrow> ('cl, 'ac, 'sftp, 'v) sshHost" where
  "SetVar h key val = h\<lparr>vars := (vars h)(key \<mapsto> val)\<rparr>"

definition GetVar :: "('cl, 'ac, 'sftp, 'v) sshHost \<Rightarrow> string \<Rightarrow> 'v option" where
  "GetVar h key = vars h key"

text \<open>A denial is logged only.\<close>

definition requestAgentForwarding ::
  "('cl, 'ac, 'sftp, 'sess, 'w) ssh_lib \<Rightarrow> ('cl, 'ac, 'sftp, 'v) sshHost \<Rightarrow> 'sess \<Rightarrow> 'w io_state
     \<Rightarrow> ('cl, 'ac, 'sftp, 'v) sshHost \<times> 'w io_state" where
  "requestAgentForwarding L h session st =
     (if \<not> forwardAgent h \<or> agentFwdOnce h then (h, st)
      else
        (case plain_call (RequestAgentForwarding L session) st of
           (_, st1) \<Rightarrow> (h\<lparr>agentFwdOnce := True\<rparr>, emit RequestedForwarding st1)))"

definition NewCommand ::
  "('cl, 'ac, 'sftp, 'sess, 'w) ssh_lib \<Rightarrow> ('cl, 'ac, 'sftp, 'v) sshHost \<Rightarrow> 'w io_state
     \<Rightarrow> (err + 'sess) \<times> ('cl, 'ac, 'sftp, 'v) sshHost \<times> 'w io_state" where
  "NewCommand L h st =
     (case open_call RSession (NewSession L (client h)) st of
        (Inl e, st1) \<Rightarrow> (Inl e, h, st1)
      | (Inr session, st1) \<Rightarrow>
          (case requestAgentForwarding L h session st1 of (h', st2) \<Rightarrow> (Inr session, h', st2)))"

text \<open>
  \<open>Execute\<close>: the helper goroutine closes the session when the context is cancelled, before
  the command returns (\<open>cancelled\<close>), or after it. In the first case what it stored in
  \<open>err\<close> is overwritten by the result of the command.
\<close>

definition Execute ::
  "('cl, 'ac, 'sftp, 'sess, 'w) ssh_lib \<Rightarrow> ('cl, 'ac, 'sftp, 'v) sshHost \<Rightarrow> bool \<Rightarrow> string \<Rightarrow> 'w io_state
     \<Rightarrow> (string \<times> error) \<times> ('cl, 'ac, 'sftp, 'v) sshHost \<times> 'w io_state" where
  "Execute L h cancelled cmd st =
     (case open_call RSession (NewSession L (client h)) st of
        (Inl e, st1) \<Rightarrow> (([], Some e), h, st1)
      | (Inr session, st1) \<Rightarrow>
          (case requestAgentForwarding L h session st1 of
             (h', st2) \<Rightarrow>
               if cancelled then
                 (case close_call RSession (CloseSession L session) st2 of
                    (_, st3) \<Rightarrow>
                      (case plain_call (SessionRun L session cmd) st3 of
                         ((out, e), st4) \<Rightarrow> ((out, e), h', st4)))
               else
                 (case plain_call (SessionRun L session cmd) st2 of
                    ((out, e), st3) \<Rightarrow>
                      (case close_call RSession (CloseSession L session) st3 of
                         (closed, st4) \<Rightarrow> ((out, safeClose closed e [EOF]), h', st4)))))"

definition Close ::
  "('cl, 'ac, 'sftp, 'sess, 'w) ssh_lib \<Rightarrow> ('cl, 'ac, 'sftp, 'v) sshHost \<Rightarrow> 'w io_state
     \<Rightarrow> error \<times> 'w io_state" where
  "Close L h st =
     (let st0 = (if stopKeepAlive h \<noteq> None then emit StoppedKeepAlive st else st) in
      case close_agent L (agentConn h) st0 of
        (agentErr, st1) \<Rightarrow>
          (case close_call RSftp (CloseSftp L (sftpClient h)) st1 of
             (sftpErr, st2) \<Rightarrow>
               (case close_call RClient (CloseClient L (client h)) st2 of
                  (clientErr, st3) \<Rightarrow> (errors_Join [sftpErr, clientErr, agentErr], st3))))"

section \<open>Round trip of the environment\<close>

text \<open>What \<open>env\<close> prints: one line per variable.\<close>

fun print_env :: "(string \<times> string) list \<Rightarrow> string" where
  "print_env [] = []"
| "print_env ((k, v) # kvs) = k @ CHR ''='' # v @ newline # print_env kvs"

definition env_entry :: "string \<times> string \<Rightarrow> bool" where
  "env_entry kv \<longleftrightarrow>
     CHR ''='' \<notin> set (fst kv) \<and> newline \<notin> set (fst kv) \<and> newline \<notin> set (snd kv) \<and> trimmed (snd kv)"

lemma space_len_0_iff:
  assumes "[] \<notin> set rs"
  shows "space_len rs s = 0 \<longleftrightarrow> (\<forall>r \<in> set rs. \<not> HasPrefix s r)"
proof (cases "find (HasPrefix s) rs")
  case None
  then have "\<forall>r \<in> set rs. \<not> HasPrefix s r" by (auto simp: find_None_iff)
  with None show ?thesis by (simp add: space_len_def)
next
  case (Some r)
  then have "r \<in> set rs" "HasPrefix s r" by (auto simp: find_Some_iff)
  with Some assms show ?thesis by (auto simp: space_len_def)
qed

lemma Nil_space_runes: "[] \<notin> set space_runes"
  by (simp add: space_runes_def)

lemma space_runes_newline: "r \<in> set space_runes \<Longrightarrow> newline \<in> set r \<Longrightarrow> r = [newline]"
  by (auto simp: space_runes_def newline_def)

lemma space_len_newline:
  assumes "v \<noteq> []" and "space_len space_runes v = 0"
  shows "space_len space_runes (v @ [newline]) = 0"
proof -
  have no: "\<not> HasPrefix v r" if "r \<in> set space_runes" for r
    using assms(2) that by (simp add: space_len_0_iff Nil_space_runes)
  have "\<not> HasPrefix (v @ [newline]) r" if r: "r \<in> set space_runes" for r
  proof
    assume p: "HasPrefix (v @ [newline]) r"
    show False
    proof (cases "length r \<le> length v")
      case True
      with p no [OF r] show False by (simp add: HasPrefix_def)
    next
      case False
      with p have "r = v @ [newline]" by (simp add: HasPrefix_def)
      with space_runes_newline [OF r] assms(1) show False by simp
    qed
  qed
  then show ?thesis by (simp add: space_len_0_iff Nil_space_runes)
qed

lemma TrimSpace_newline: "trimmed v \<Longrightarrow> TrimSpace (v @ [newline]) = v"
proof (cases "v = []")
  case True
  have "TrimSpace [newline] = []" by code_simp
  with True show ?thesis by simp
next
  case False
  assume v: "trimmed v"
  have nl: "space_len (map rev space_runes) (newline # s) = 1" for s
    by (simp add: space_len_def space_runes_def HasPrefix_def newline_def)
  have "TrimLeftSpace (v @ [newline]) = v @ [newline]"
    using False v by (simp add: TrimLeftSpace_def trimmed_def space_len_newline trim_left_no_space)
  moreover have "trim_left (map rev space_runes) (newline # rev v) = rev v"
    using v by (subst trim_left.simps) (simp add: nl trimmed_def trim_left_no_space)
  ultimately show ?thesis by (simp add: TrimSpace_def TrimRightSpace_def)
qed

lemma parse_env_entry:
  assumes "env_entry (k, v)"
  shows "parse_env (Lines (k @ CHR ''='' # v @ newline # s)) m = parse_env (Lines s) (m(k \<mapsto> v))"
proof -
  have "newline \<notin> set (k @ CHR ''='' # v)" using assms by (auto simp: env_entry_def newline_def)
  then have "Lines ((k @ CHR ''='' # v) @ newline # s) = ((k @ CHR ''='' # v) @ [newline]) # Lines s"
    by (rule Lines_line)
  with assms Cut_found [of "CHR ''=''" k "v @ [newline]"] show ?thesis
    by (simp add: env_entry_def TrimSpace_newline)
qed

lemma parse_env_print:
  "list_all env_entry kvs \<Longrightarrow>
     parse_env (Lines (print_env kvs)) m = m ++ map_of (rev kvs)"
proof (induction kvs arbitrary: m)
  case (Cons kv kvs)
  obtain k v where kv: "kv = (k, v)" by (cases kv)
  with Cons show ?case by (simp add: parse_env_entry map_add_upd_left)
qed simp



section \<open>Ownership of connections\<close>

lemma fetchEnv_adds:
  assumes "fetchEnv L cl st = (x, st')"
  obtains es where "adds st st' es" "\<And>r. balance r es = 0" "Closed RClient \<notin> set es"
proof (cases "open_call RSession (NewSession L cl) st")
  case (Pair s st1)
  show ?thesis
  proof (cases s)
    case (Inl e)
    with Pair assms have "st' = st1" by (simp add: fetchEnv_def)
    with adds_open_Inl [OF Pair [unfolded Inl]] that [of "[]"] show ?thesis by simp
  next
    case (Inr cmd)
    obtain out st2 where 2: "plain_call (SessionOutput L cmd ''env'') st1 = (out, st2)" by fastforce
    obtain closed st3 where 3: "close_call RSession (CloseSession L cmd) st2 = (closed, st3)" by fastforce
    from Pair Inr 2 3 assms have st': "st' = st3"
      by (auto simp: fetchEnv_def split: sum.splits option.splits)
    have "adds st st' ([Opened RSession] @ [] @ [Closed RSession])" unfolding st'
      by (rule adds_trans [OF adds_open_Inr [OF Pair [unfolded Inr]]
            adds_trans [OF adds_plain [OF 2] adds_close [OF 3]]])
    with that show ?thesis by fastforce
  qed
qed

lemma close_agent_adds:
  "close_agent L ac st = (e, st') \<Longrightarrow> adds st st' (if ac = None then [] else [Closed RAgent])"
  by (auto simp: close_agent_def split: option.splits intro: adds_close)

lemma setup_agent_fails:
  assumes "setup_agent L nm cl fwd st = (Inl e, st')"
  obtains es where "adds st st' es" "\<And>r. balance r es = 0" "Closed RClient \<notin> set es"
proof (cases "open_call RAgent (DialAgent L (SSH_AUTH_SOCK L)) st")
  case (Pair s st1)
  have fwd: "fwd" using assms by (auto simp: setup_agent_def split: if_splits)
  show ?thesis
  proof (cases s)
    case (Inl e')
    with Pair assms fwd have "st' = st \<or> st' = st1" by (auto simp: setup_agent_def Let_def split: if_splits)
    with adds_open_Inl [OF Pair [unfolded Inl]] that [of "[]"] show ?thesis by auto
  next
    case (Inr ac)
    show ?thesis
    proof (cases "SSH_AUTH_SOCK L = []")
      case True
      with fwd assms have "st' = st" by (simp add: setup_agent_def)
      with that [of "[]"] show ?thesis by simp
    next
      case False
      obtain r st2 where 2: "plain_call (ForwardToAgent L cl ac) st1 = (r, st2)" by fastforce
      obtain c st3 where 3: "close_call RAgent (CloseAgent L ac) st2 = (c, st3)" by fastforce
      from Pair Inr 2 3 assms fwd False have st': "st' = st3"
        by (auto simp: setup_agent_def Let_def split: option.splits)
      have "adds st st' ([Opened RAgent] @ [] @ [Closed RAgent])" unfolding st'
        by (rule adds_trans [OF adds_open_Inr [OF Pair [unfolded Inr]]
              adds_trans [OF adds_plain [OF 2] adds_close [OF 3]]])
      with that show ?thesis by fastforce
    qed
  qed
qed

lemma setup_agent_succeeds:
  assumes "setup_agent L nm cl fwd st = (Inr ac, st')"
  shows "adds st st' (if fwd then [Opened RAgent] else [])" and "ac = None \<longleftrightarrow> \<not> fwd"
proof -
  have "adds st st' (if fwd then [Opened RAgent] else []) \<and> (ac = None \<longleftrightarrow> \<not> fwd)"
  proof (cases fwd)
    case False
    with assms show ?thesis by (auto simp: setup_agent_def)
  next
    case True
    with assms obtain c st1 where 1: "open_call RAgent (DialAgent L (SSH_AUTH_SOCK L)) st = (Inr c, st1)"
      by (auto simp: setup_agent_def Let_def split: if_splits prod.splits sum.splits option.splits)
    with assms True have 2: "plain_call (ForwardToAgent L cl c) st1 = (None, st')" "ac = Some c"
      by (auto simp: setup_agent_def Let_def split: if_splits prod.splits option.splits)
    from adds_trans [OF adds_open_Inr [OF 1] adds_plain [OF 2(1)]] True 2(2) show ?thesis by simp
  qed
  then show "adds st st' (if fwd then [Opened RAgent] else [])" "ac = None \<longleftrightarrow> \<not> fwd" by simp_all
qed

lemma newHost_fails:
  assumes "newHostFromClient L nm cl fwd ka st = (Inl e, st')"
  obtains es where "adds st st' es" "balance RAgent es = 0" "balance RSession es = 0"
    "balance RClient es = 0" "balance RJump es = 0" "Closed RClient \<notin> set es"
proof (cases "setup_agent L nm cl fwd st")
  case (Pair a st1)
  show ?thesis
  proof (cases a)
    case (Inl e')
    with Pair assms have "setup_agent L nm cl fwd st = (Inl e', st')" by (simp add: newHostFromClient_def)
    then show ?thesis by (rule setup_agent_fails) (use that in blast)
  next
    case (Inr ac)
    note ok = setup_agent_succeeds [OF Pair [unfolded Inr]]
    obtain s st2 where 2: "open_call RSftp (NewSftp L cl) st1 = (s, st2)" by fastforce
    show ?thesis
    proof (cases s)
      case (Inl e')
      obtain c st3 where 3: "close_agent L ac st2 = (c, st3)" by fastforce
      from Pair Inr 2 Inl 3 assms have st': "st' = st3" by (simp add: newHostFromClient_def)
      from adds_trans [OF ok(1) adds_trans [OF adds_open_Inl [OF 2 [unfolded Inl]] close_agent_adds [OF 3]]]
      show ?thesis using ok(2) st' by (intro that) (auto split: if_splits)
    next
      case (Inr sftp)
      obtain x st3 where 3: "fetchEnv L cl st2 = (x, st3)" by fastforce
      obtain e' where x: "x = Inl e'" using Pair \<open>a = Inr ac\<close> 2 Inr 3 assms
        by (cases x) (auto simp: newHostFromClient_def)
      obtain c st4 where 4: "close_agent L ac st3 = (c, st4)" by fastforce
      from Pair \<open>a = Inr ac\<close> 2 Inr 3 x 4 assms have st': "st' = st4" by (simp add: newHostFromClient_def)
      obtain fs where fs: "adds st2 st3 fs" "\<And>r. balance r fs = 0" "Closed RClient \<notin> set fs"
        using 3 by (rule fetchEnv_adds) blast
      note all = adds_trans [OF ok(1) adds_trans [OF adds_open_Inr [OF 2 [unfolded Inr]]
          adds_trans [OF fs(1) close_agent_adds [OF 4]]]]
      show ?thesis by (rule that [OF all [folded st']]) (use ok(2) fs(2,3) in \<open>auto split: if_splits\<close>)
    qed
  qed
qed

lemma newHost_succeeds:
  assumes "newHostFromClient L nm cl fwd ka st = (Inr h, st')"
  obtains es where "adds st st' es" "\<forall>r. balance r es = of_bool (r = RSftp) + of_bool (r = RAgent \<and> fwd)"
    "client h = cl" "name h = nm" "agentConn h = None \<longleftrightarrow> \<not> fwd" "forwardAgent h = fwd"
    "stopKeepAlive h = (if 0 < ka then Some ka else None)" "\<not> agentFwdOnce h"
proof -
  obtain ac st1 where 1: "setup_agent L nm cl fwd st = (Inr ac, st1)"
    using assms by (auto simp: newHostFromClient_def split: prod.splits sum.splits)
  obtain sftp st2 where 2: "open_call RSftp (NewSftp L cl) st1 = (Inr sftp, st2)"
    using assms 1 by (auto simp: newHostFromClient_def split: prod.splits sum.splits)
  obtain environ where 3: "fetchEnv L cl st2 = (Inr environ, st')"
    using assms 1 2 by (auto simp: newHostFromClient_def split: prod.splits sum.splits)
  note ok = setup_agent_succeeds [OF 1]
  obtain fs where fs: "adds st2 st' fs" "\<And>r. balance r fs = 0" using 3 by (rule fetchEnv_adds) blast
  have h: "client h = cl" "name h = nm" "agentConn h = ac" "forwardAgent h = fwd"
    "stopKeepAlive h = (if 0 < ka then Some ka else None)" "\<not> agentFwdOnce h"
    using assms 1 2 3 by (auto simp: newHostFromClient_def)
  from adds_trans [OF ok(1) adds_trans [OF adds_open_Inr [OF 2] fs(1)]]
  show ?thesis using ok(2) fs(2) h by (intro that) (auto split: if_splits)
qed

lemma Close_adds:
  assumes "Close L h st = (e, st')"
  shows "adds st st' ((if stopKeepAlive h = None then [] else [StoppedKeepAlive]) @
    (if agentConn h = None then [] else [Closed RAgent]) @ [Closed RSftp, Closed RClient])"
proof -
  let ?st0 = "if stopKeepAlive h \<noteq> None then emit StoppedKeepAlive st else st"
  obtain a st1 where 1: "close_agent L (agentConn h) ?st0 = (a, st1)" by fastforce
  obtain s st2 where 2: "close_call RSftp (CloseSftp L (sftpClient h)) st1 = (s, st2)" by fastforce
  obtain c st3 where 3: "close_call RClient (CloseClient L (client h)) st2 = (c, st3)" by fastforce
  have st': "st' = st3" using assms 1 2 3 by (simp add: Close_def)
  have 0: "adds st ?st0 (if stopKeepAlive h = None then [] else [StoppedKeepAlive])"
    using adds_emit by auto
  from adds_trans [OF 0 adds_trans [OF close_agent_adds [OF 1] adds_trans [OF adds_close [OF 2] adds_close [OF 3]]]]
  show ?thesis by (simp add: st')
qed

text \<open>C22. Closing a host releases everything its creation acquired and the client it was given:
  after a successful \<open>newHostFromClient\<close> and a \<open>Close\<close>, however it ends, no agent, sftp or
  session connection is left open and the client is closed once; the keepalives are
  stopped exactly if they were running.\<close>

theorem host_lifecycle:
  assumes "newHostFromClient L nm cl fwd ka st = (Inr h, st1)" and "Close L h st2 = (e, st3)"
    and "trace st1 = trace st @ es" and "trace st3 = trace st2 @ fs"
  shows "balance RAgent (es @ fs) = 0 \<and> balance RSftp (es @ fs) = 0 \<and> balance RSession (es @ fs) = 0 \<and>
    balance RClient (es @ fs) = - 1 \<and> (StoppedKeepAlive \<in> set fs \<longleftrightarrow> 0 < ka)"
proof -
  obtain es' where es': "adds st st1 es'"
    "\<forall>r. balance r es' = of_bool (r = RSftp) + of_bool (r = RAgent \<and> fwd)"
    "client h = cl" "name h = nm" "agentConn h = None \<longleftrightarrow> \<not> fwd" "forwardAgent h = fwd"
    "stopKeepAlive h = (if 0 < ka then Some ka else None)" "\<not> agentFwdOnce h"
    using assms(1) by (rule newHost_succeeds)
  have "es' = es" using adds_fun [OF es'(1)] assms(3) by (simp add: adds_def)
  moreover have "fs = (if stopKeepAlive h = None then [] else [StoppedKeepAlive]) @
    (if agentConn h = None then [] else [Closed RAgent]) @ [Closed RSftp, Closed RClient]"
    using adds_fun [OF Close_adds [OF assms(2)]] assms(4) by (simp add: adds_def)
  ultimately show ?thesis using es'(2,5,7) by auto
qed

text \<open>When wrapping an established client fails, the agent connection and the session that
  were opened are closed again, but the client never is: the connection handed in stays
  open and no one is left to close it.\<close>

theorem newHost_failure:
  assumes "newHostFromClient L nm cl fwd ka st = (Inl e, st')" and "trace st' = trace st @ es"
  shows "balance RAgent es = 0 \<and> balance RSession es = 0 \<and> Closed RClient \<notin> set es"
proof -
  obtain es' where es': "adds st st' es'" "balance RAgent es' = 0" "balance RSession es' = 0"
    "Closed RClient \<notin> set es'"
    using assms(1) by (rule newHost_fails) blast
  have "es' = es" using adds_fun [OF es'(1)] assms(2) by (simp add: adds_def)
  with es'(2-4) show ?thesis by simp
qed

definition sample_lib :: "(unit, unit, unit, unit, nat) ssh_lib" where
  "sample_lib =
     \<lparr>SSH_AUTH_SOCK = ''/agent'', DialAgent = (\<lambda>s w. (Inr (), w)), ForwardToAgent = (\<lambda>c a w. (None, w)),
      CloseAgent = (\<lambda>a w. (None, w)), NewSftp = (\<lambda>c w. (if w = 0 then Inl (Sentinel ''x'') else Inr (), w)),
      CloseSftp = (\<lambda>s w. (None, w)), NewSession = (\<lambda>c w. (Inr (), w)),
      SessionOutput = (\<lambda>s cmd w. (Inr (print_env [(''HOME'', ''/root'')]), w)),
      SessionRun = (\<lambda>s cmd w. (([], None), w)), CloseSession = (\<lambda>s w. (Some (Sentinel EOF), w)),
      RequestAgentForwarding = (\<lambda>s w. (None, w)), CloseClient = (\<lambda>c w. (None, w)),
      RemoteAddr = (\<lambda>c. ''10.0.0.1:22'')\<rparr>"

lemma host_lifecycle_witness:
  "balance RAgent ([Opened RAgent, Opened RSftp, Opened RSession, Closed RSession] @
      [StoppedKeepAlive, Closed RAgent, Closed RSftp, Closed RClient]) = 0"
proof -
  let ?st = "\<lparr>ext = 1 :: nat, trace = []\<rparr>"
  obtain h st1 where 1: "newHostFromClient sample_lib ''h'' () True 5 ?st = (Inr h, st1)"
      "trace st1 = trace ?st @ [Opened RAgent, Opened RSftp, Opened RSession, Closed RSession]"
      "agentConn h = Some ()" "stopKeepAlive h = Some 5"
    by (simp add: newHostFromClient_def setup_agent_def open_call_def plain_call_def close_call_def
        fetchEnv_def sample_lib_def emit_def safeClose_def)
  have "trace (snd (Close sample_lib h st1)) =
      trace st1 @ [StoppedKeepAlive, Closed RAgent, Closed RSftp, Closed RClient]"
    using 1(3,4) by (simp add: Close_def close_agent_def close_call_def sample_lib_def)
  from host_lifecycle [OF 1(1) surjective_pairing 1(2) this] show ?thesis by simp
qed

lemma newHost_failure_witness:
  "Closed RClient \<notin> set [Opened RAgent, Closed RAgent]"
proof -
  let ?st = "\<lparr>ext = 0 :: nat, trace = []\<rparr>"
  let ?r = "newHostFromClient sample_lib ''h'' () True 5 ?st"
  have "?r = (Inl (Sentinel ''x''), snd ?r)" "trace (snd ?r) = trace ?st @ [Opened RAgent, Closed RAgent]"
    by (simp_all add: newHostFromClient_def setup_agent_def open_call_def plain_call_def close_call_def
        close_agent_def sample_lib_def emit_def)
  from newHost_failure [OF this] show ?thesis by simp
qed

section \<open>Agent forwarding is requested once\<close>

datatype host_op = OpNewCommand | OpExecute bool string

definition apply_op ::
  "('cl, 'ac, 'sftp, 'sess, 'w) ssh_lib \<Rightarrow> host_op \<Rightarrow> ('cl, 'ac, 'sftp, 'v) sshHost \<times> 'w io_state
     \<Rightarrow> ('cl, 'ac, 'sftp, 'v) sshHost \<times> 'w io_state" where
  "apply_op L p hst =
     (case hst of (h, st) \<Rightarrow>
        (case p of
           OpNewCommand \<Rightarrow> snd (NewCommand L h st)
         | OpExecute cancelled cmd \<Rightarrow> snd (Execute L h cancelled cmd st)))"

definition requested :: "event list \<Rightarrow> nat" where
  "requested es = count_list es RequestedForwarding"

lemma requested_simps [simp]:
  "requested [] = 0" "requested (es @ fs) = requested es + requested fs"
  "requested (RequestedForwarding # es) = Suc (requested es)"
  "e \<noteq> RequestedForwarding \<Longrightarrow> requested (e # es) = requested es"
  by (simp_all add: requested_def)

lemma requestAgentForwarding_adds:
  assumes "requestAgentForwarding L h session st = (h', st')"
  shows "adds st st' (if forwardAgent h \<and> \<not> agentFwdOnce h then [RequestedForwarding] else [])"
    and "forwardAgent h' = forwardAgent h" and "agentFwdOnce h' \<longleftrightarrow> agentFwdOnce h \<or> forwardAgent h"
  using assms adds_trans [OF adds_plain adds_emit]
  by (auto simp: requestAgentForwarding_def split: if_splits prod.splits)

text \<open>What one operation does to the forwarding state.\<close>

definition forwards ::
  "('cl, 'ac, 'sftp, 'v) sshHost \<Rightarrow> ('cl, 'ac, 'sftp, 'v) sshHost \<Rightarrow> event list \<Rightarrow> bool" where
  "forwards h h' es \<longleftrightarrow>
     forwardAgent h' = forwardAgent h \<and>
     (agentFwdOnce h' \<longleftrightarrow> agentFwdOnce h \<or> forwardAgent h \<and> Opened RSession \<in> set es) \<and>
     requested es = of_bool (forwardAgent h \<and> \<not> agentFwdOnce h \<and> Opened RSession \<in> set es)"

lemma close_then_plain:
  "close_call r c st = (e, st1) \<Longrightarrow> plain_call d st1 = (v, st2) \<Longrightarrow> adds st st2 [Closed r]"
  using adds_trans [OF adds_close adds_plain] by fastforce

lemma plain_then_close:
  "plain_call d st = (v, st1) \<Longrightarrow> close_call r c st1 = (e, st2) \<Longrightarrow> adds st st2 [Closed r]"
  using adds_trans [OF adds_plain adds_close] by fastforce

lemma forwards_refl: "forwards h h []"
  by (simp add: forwards_def)

lemma forwards_session:
  assumes "requestAgentForwarding L h s st1 = (h', st2)" and "adds st st1 [Opened RSession]"
    and "adds st2 st3 es" "set es \<subseteq> {Closed RSession}"
  shows "\<exists>es. adds st st3 es \<and> forwards h h' es"
proof -
  note req = requestAgentForwarding_adds [OF assms(1)]
  have "requested es = 0" using assms(4) by (auto simp: requested_def count_list_0_iff)
  moreover have "Opened RSession \<notin> set es" using assms(4) by auto
  moreover note adds_trans [OF assms(2) adds_trans [OF req(1) assms(3)]]
  ultimately show ?thesis using req(2,3) by (intro exI conjI) (auto simp: forwards_def)
qed

lemma apply_op_adds:
  assumes "apply_op L p (h, st) = (h', st')"
  shows "\<exists>es. adds st st' es \<and> forwards h h' es"
proof (cases "open_call RSession (NewSession L (client h)) st")
  case (Pair s st1)
  show ?thesis
  proof (cases s)
    case (Inl e)
    with Pair assms have "h' = h" "st' = st1"
      by (auto simp: apply_op_def NewCommand_def Execute_def split: host_op.splits)
    with adds_open_Inl [OF Pair [unfolded Inl]] forwards_refl show ?thesis by blast
  next
    case (Inr session)
    obtain h2 st2 where 2: "requestAgentForwarding L h session st1 = (h2, st2)" by fastforce
    note opened = adds_open_Inr [OF Pair [unfolded Inr]]
    show ?thesis
    proof (cases p)
      case OpNewCommand
      with Pair Inr 2 assms have "h' = h2" "st' = st2" by (auto simp: apply_op_def NewCommand_def)
      with forwards_session [OF 2 opened, of st2 "[]"] show ?thesis by auto
    next
      case (OpExecute cancelled cmd)
      have "h' = h2 \<and> adds st2 st' [Closed RSession]"
        using Pair Inr 2 assms OpExecute
        by (auto simp: apply_op_def Execute_def split: prod.splits if_splits
            intro: close_then_plain plain_then_close)
      with forwards_session [OF 2 opened, of st' "[Closed RSession]"] show ?thesis by simp
    qed
  qed
qed

text \<open>C23. However many commands are created or executed on a host, agent forwarding is requested
  at most once, and exactly once if the host forwards the agent and a session was opened.\<close>

theorem forwarding_once:
  assumes "fold (apply_op L) ops (h, st) = (h', st')" and "\<not> agentFwdOnce h"
    and "trace st' = trace st @ es"
  shows "requested es = of_bool (forwardAgent h \<and> Opened RSession \<in> set es)"
proof -
  have "\<exists>fs. adds st st' fs \<and> forwards h h' fs"
    using assms(1)
  proof (induction ops arbitrary: h st)
    case Nil
    with forwards_refl show ?case by (auto intro!: exI [of _ "[]"])
  next
    case (Cons p ops)
    obtain h1 st1 where 1: "apply_op L p (h, st) = (h1, st1)" by fastforce
    from apply_op_adds [OF 1] obtain fs where fs: "adds st st1 fs" "forwards h h1 fs" by blast
    from Cons 1 obtain gs where gs: "adds st1 st' gs" "forwards h1 h' gs" by auto
    have "forwards h h' (fs @ gs)" using fs(2) gs(2) by (auto simp: forwards_def)
    with adds_trans [OF fs(1) gs(1)] show ?case by blast
  qed
  then obtain fs where "adds st st' fs" "forwards h h' fs" by blast
  moreover have "fs = es" using \<open>adds st st' fs\<close> assms(3) by (simp add: adds_def)
  ultimately show ?thesis using assms(2) by (simp add: forwards_def)
qed

lemma forwarding_once_witness:
  "requested [Opened RSession, RequestedForwarding, Opened RSession, Closed RSession] = 1"
proof -
  let ?st = "\<lparr>ext = 1 :: nat, trace = []\<rparr>"
  let ?h = "\<lparr>name = ''h'', env = Map.empty, client = (), sftpClient = (), fsys = ((), ''/''),
    vars = (Map.empty :: string \<rightharpoonup> int), forwardAgent = True, agentConn = Some (),
    stopKeepAlive = None, agentFwdOnce = False\<rparr>"
  let ?r = "fold (apply_op sample_lib) [OpNewCommand, OpExecute False ''ls''] (?h, ?st)"
  have "?r = (fst ?r, snd ?r)" by simp
  moreover have "trace (snd ?r) =
      trace ?st @ [Opened RSession, RequestedForwarding, Opened RSession, Closed RSession]"
    by (simp add: apply_op_def NewCommand_def Execute_def open_call_def close_call_def plain_call_def
        requestAgentForwarding_def sample_lib_def emit_def)
  ultimately show ?thesis using forwarding_once [of sample_lib _ ?h ?st] by fastforce
qed

end
