(* ===== verification/Dial_Pool.thy ===== *)
theory Dial_Pool
  imports Go_Error "HOL-Library.Multiset"
begin

text \<open>
  ssh.go, the concurrency of \<open>groupDialer.dialAll\<close>: the scheduler that offers the indices of
  the aliases on the unbuffered channel \<open>jobs\<close>, the workers that dial what they receive and
  store the result in their slot, and the channel \<open>abort\<close> that a failing worker closes when
  \<open>failFast\<close> is set.

  One step is one goroutine moving. Dialing an alias is a function of the alias and of the
  state everything shares; it happens in the step that stores its result. \<open>dialed\<close> is a
  ghost field: the indices in the order their dials ended.
\<close>

datatype worker = Idle | Dialing nat | Exited

record 'h sshDialResult =
  host :: "'h option"
  err :: error

record ('h, 's) pool =
  todo :: nat
  scheduling :: bool
  aborted :: bool
  workers :: "worker list"
  results :: "'h sshDialResult list"
  shared :: 's
  dialed :: "nat list"

definition no_result :: "'h sshDialResult" where
  "no_result = \<lparr>host = None, err = None\<rparr>"

definition dialConcurrency :: "int \<Rightarrow> nat \<Rightarrow> nat" where
  "dialConcurrency concurrency aliases =
     (if concurrency < 2 then 1 else nat (min concurrency (int aliases)))"

definition pool_init :: "int \<Rightarrow> string list \<Rightarrow> 's \<Rightarrow> ('h, 's) pool" where
  "pool_init concurrency aliases s =
     \<lparr>todo = 0, scheduling = True, aborted = False,
      workers = replicate (dialConcurrency concurrency (length aliases)) Idle,
      results = replicate (length aliases) no_result, shared = s, dialed = []\<rparr>"

definition gives_up :: "bool \<Rightarrow> 'h sshDialResult \<Rightarrow> bool" where
  "gives_up failFast r \<longleftrightarrow> failFast \<and> err r \<noteq> None"

inductive pool_step ::
  "(string \<Rightarrow> 's \<Rightarrow> 'h sshDialResult \<times> 's) \<Rightarrow> bool \<Rightarrow> string list
     \<Rightarrow> ('h, 's) pool \<Rightarrow> ('h, 's) pool \<Rightarrow> bool"
  for dial failFast aliases where
  send_job: "scheduling p \<Longrightarrow> todo p < length aliases \<Longrightarrow> k < length (workers p) \<Longrightarrow> workers p ! k = Idle \<Longrightarrow>
    pool_step dial failFast aliases p
      (p\<lparr>workers := (workers p)[k := Dialing (todo p)], todo := Suc (todo p)\<rparr>)"
| break_schedule: "scheduling p \<Longrightarrow> todo p < length aliases \<Longrightarrow> aborted p \<Longrightarrow>
    pool_step dial failFast aliases p (p\<lparr>scheduling := False\<rparr>)"
| close_jobs: "scheduling p \<Longrightarrow> todo p = length aliases \<Longrightarrow>
    pool_step dial failFast aliases p (p\<lparr>scheduling := False\<rparr>)"
| store: "k < length (workers p) \<Longrightarrow> workers p ! k = Dialing i \<Longrightarrow>
    dial (aliases ! i) (shared p) = (r, s') \<Longrightarrow>
    pool_step dial failFast aliases p
      (p\<lparr>results := (results p)[i := r], shared := s', dialed := dialed p @ [i],
         workers := (workers p)[k := if gives_up failFast r then Exited else Idle],
         aborted := aborted p \<or> gives_up failFast r\<rparr>)"
| leave: "\<not> scheduling p \<Longrightarrow> k < length (workers p) \<Longrightarrow> workers p ! k = Idle \<Longrightarrow>
    pool_step dial failFast aliases p (p\<lparr>workers := (workers p)[k := Exited]\<rparr>)"

text \<open>\<open>wg.Wait\<close> returns.\<close>

definition pool_done :: "('h, 's) pool \<Rightarrow> bool" where
  "pool_done p \<longleftrightarrow> \<not> scheduling p \<and> set (workers p) \<subseteq> {Exited}"

section \<open>Invariant\<close>

fun busy :: "worker \<Rightarrow> nat multiset" where
  "busy (Dialing i) = {#i#}"
| "busy _ = {#}"

definition in_flight :: "worker list \<Rightarrow> nat multiset" where
  "in_flight ws = sum_list (map busy ws)"

lemma in_flight_update:
  "k < length ws \<Longrightarrow> in_flight (ws[k := w]) + busy (ws ! k) = in_flight ws + busy w"
  using sum_list_update_add [of k "map busy ws" "busy w"] by (simp add: in_flight_def map_update)

text \<open>Every index handed out was dialed or is being dialed, once.\<close>

definition indices_ok :: "('h, 's) pool \<Rightarrow> bool" where
  "indices_ok p \<longleftrightarrow> mset (dialed p) + in_flight (workers p) = mset [0..<todo p]"

definition pool_inv :: "bool \<Rightarrow> string list \<Rightarrow> ('h, 's) pool \<Rightarrow> bool" where
  "pool_inv failFast aliases p \<longleftrightarrow>
     length (results p) = length aliases \<and> todo p \<le> length aliases \<and> workers p \<noteq> [] \<and>
     (scheduling p \<and> Exited \<in> set (workers p) \<longrightarrow> aborted p) \<and>
     (\<not> scheduling p \<and> \<not> aborted p \<longrightarrow> todo p = length aliases) \<and>
     indices_ok p \<and>
     (\<forall>i < length aliases. i \<notin> set (dialed p) \<longrightarrow> results p ! i = no_result) \<and>
     (aborted p \<longleftrightarrow> (\<exists>i \<in> set (dialed p). gives_up failFast (results p ! i)))"

lemma in_flight_member: "k < length ws \<Longrightarrow> ws ! k = Dialing i \<Longrightarrow> i \<in># in_flight ws"
  using in_flight_update [of k ws Idle] by (metis add.right_neutral add_mset_add_single busy.simps(1,2)
      union_single_eq_member)

lemma indices_facts:
  assumes "indices_ok p"
  shows "distinct (dialed p)" and "set (dialed p) \<subseteq> {0..<todo p}"
    and "k < length (workers p) \<Longrightarrow> workers p ! k = Dialing i \<Longrightarrow> i < todo p \<and> i \<notin> set (dialed p)"
proof -
  obtain ys where ys: "mset ys = in_flight (workers p)" using ex_mset by blast
  with assms have m: "mset (dialed p @ ys) = mset [0..<todo p]" by (simp add: indices_ok_def)
  then have d: "distinct (dialed p @ ys)" by (metis distinct_upt mset_eq_imp_distinct_iff)
  from m have s: "set (dialed p @ ys) = {0..<todo p}" by (metis mset_eq_setD set_upt)
  from d s show "distinct (dialed p)" "set (dialed p) \<subseteq> {0..<todo p}" by auto
  assume "k < length (workers p)" "workers p ! k = Dialing i"
  then have "i \<in> set ys" using in_flight_member ys by (metis set_mset_mset)
  with d s show "i < todo p \<and> i \<notin> set (dialed p)" by auto
qed

lemma in_flight_idle [simp]: "in_flight (replicate n Idle) = {#}"
  by (induction n) (simp_all add: in_flight_def)

lemma indices_ok_init [simp]: "indices_ok (pool_init c aliases s)"
  by (simp add: indices_ok_def pool_init_def)

lemma workers_init: "workers (pool_init c aliases s) \<noteq> [] \<longleftrightarrow> aliases \<noteq> [] \<or> c < 2"
  by (auto simp: pool_init_def dialConcurrency_def)

lemma pool_inv_init [inv_intros]: "aliases \<noteq> [] \<Longrightarrow> pool_inv failFast aliases (pool_init c aliases s)"
  using workers_init [of c aliases s] indices_ok_init [of c aliases s]
  by (auto simp: pool_inv_def) (auto simp: pool_init_def)

lemma pool_step_indices:
  assumes "pool_step dial failFast aliases p p'" and "indices_ok p"
  shows "indices_ok p'"
  using assms(1)
proof cases
  case (send_job k)
  with in_flight_update [of k "workers p" "Dialing (todo p)"] assms(2) show ?thesis
    by (simp add: indices_ok_def)
next
  case (store k i r s')
  with in_flight_update [of k "workers p" "if gives_up failFast r then Exited else Idle"]
  have "in_flight (workers p) = add_mset i (in_flight (workers p'))" by (simp split: if_splits)
  with store(1) assms(2) show ?thesis by (simp add: indices_ok_def)
next
  case (leave k)
  with in_flight_update [of k "workers p" Exited] assms(2) show ?thesis by (simp add: indices_ok_def)
qed (use assms(2) in \<open>simp_all add: indices_ok_def\<close>)

lemma pool_step_inv:
  assumes "pool_step dial failFast aliases p p'" and "pool_inv failFast aliases p"
  shows "pool_inv failFast aliases p'"
proof -
  have ix: "indices_ok p" using assms(2) by (simp add: pool_inv_def)
  note facts = indices_facts [OF ix]
  have "indices_ok p'" by (rule pool_step_indices [OF assms(1) ix])
  with assms(1) show ?thesis
  proof cases
    case (store k i r s')
    then have i: "i < todo p" "i \<notin> set (dialed p)" using facts(3) by auto
    have same: "results p' ! j = results p ! j" if "j \<noteq> i" for j using store that by simp
    moreover have "results p' ! i = r" using store i assms(2) by (simp add: pool_inv_def)
    moreover have "(\<exists>j \<in> set (dialed p). gives_up failFast (results p' ! j)) \<longleftrightarrow>
        (\<exists>j \<in> set (dialed p). gives_up failFast (results p ! j))"
    proof (intro bex_cong refl)
      fix j assume "j \<in> set (dialed p)"
      with i(2) have "j \<noteq> i" by blast
      from same [OF this] show "gives_up failFast (results p' ! j) \<longleftrightarrow> gives_up failFast (results p ! j)"
        by simp
    qed
    moreover have "set (dialed p') = insert i (set (dialed p))" using store(1) by simp
    ultimately have "(\<exists>j \<in> set (dialed p'). gives_up failFast (results p' ! j)) \<longleftrightarrow>
        (\<exists>j \<in> set (dialed p). gives_up failFast (results p ! j)) \<or> gives_up failFast r"
      by auto
    with store \<open>indices_ok p'\<close> assms(2) show ?thesis
      by (auto simp: pool_inv_def nth_list_update dest!: set_update_subset_insert [THEN subsetD])
  qed (use assms(2) in \<open>auto simp: pool_inv_def dest!: set_update_subset_insert [THEN subsetD]\<close>)
qed

fun worker_weight :: "worker \<Rightarrow> nat" where
  "worker_weight Idle = 1"
| "worker_weight (Dialing _) = 2"
| "worker_weight Exited = 0"

definition pool_weight :: "string list \<Rightarrow> ('h, 's) pool \<Rightarrow> nat" where
  "pool_weight aliases p =
     3 * (length aliases - todo p) + sum_list (map worker_weight (workers p)) + of_bool (scheduling p)"

lemma workers_weight:
  "k < length ws \<Longrightarrow>
     sum_list (map worker_weight (ws[k := w])) + worker_weight (ws ! k) =
     sum_list (map worker_weight ws) + worker_weight w"
  using sum_list_update_add [of k "map worker_weight ws" "worker_weight w"] by (simp add: map_update)

lemma pool_step_weight:
  assumes "pool_step dial failFast aliases p p'"
  shows "pool_weight aliases p' < pool_weight aliases p"
  using assms
proof cases
  case (send_job k)
  with workers_weight [of k "workers p" "Dialing (todo p)"] show ?thesis by (simp add: pool_weight_def)
next
  case (store k i r s')
  with workers_weight [of k "workers p" "if gives_up failFast r then Exited else Idle"]
  show ?thesis by (simp add: pool_weight_def split: if_splits)
next
  case (leave k)
  with workers_weight [of k "workers p" Exited] show ?thesis by (simp add: pool_weight_def)
qed (simp_all add: pool_weight_def)

lemma worker_can_move:
  assumes "k < length (workers p)" and "workers p ! k = Dialing i"
  shows "\<exists>p'. pool_step dial failFast aliases p p'"
proof -
  obtain r s' where "dial (aliases ! i) (shared p) = (r, s')" by fastforce
  from pool_step.store [of k p i dial aliases, OF assms this] show ?thesis by blast
qed

lemma pool_progress:
  assumes "pool_inv failFast aliases p" and "\<not> pool_done p"
  shows "\<exists>p'. pool_step dial failFast aliases p p'"
proof (cases "scheduling p")
  case True
  consider "todo p = length aliases" | "todo p < length aliases" "aborted p"
    | "todo p < length aliases" "\<not> aborted p"
    using assms(1) by (force simp: pool_inv_def)
  then show ?thesis
  proof cases
    case 3
    have 0: "0 < length (workers p)" using assms(1) by (simp add: pool_inv_def)
    have "Exited \<notin> set (workers p)" using assms(1) True 3 by (simp add: pool_inv_def)
    with 0 have "workers p ! 0 \<noteq> Exited" by (metis nth_mem)
    then show ?thesis
    proof (cases "workers p ! 0")
      case Idle
      from pool_step.send_job [OF True 3(1) 0 Idle] show ?thesis by blast
    next
      case (Dialing i)
      from worker_can_move [OF 0 this] show ?thesis .
    qed simp
  qed (use True in \<open>blast intro: pool_step.close_jobs pool_step.break_schedule\<close>)+
next
  case False
  with assms(2) obtain w where "w \<in> set (workers p)" "w \<noteq> Exited" by (auto simp: pool_done_def)
  then obtain k where k: "k < length (workers p)" "workers p ! k \<noteq> Exited"
    by (auto simp: in_set_conv_nth)
  show ?thesis
  proof (cases "workers p ! k")
    case Idle
    from pool_step.leave [OF False k(1) Idle] show ?thesis by blast
  next
    case (Dialing i)
    from worker_can_move [OF k(1) this] show ?thesis .
  next
    case Exited
    with k show ?thesis by simp
  qed
qed

interpretation pool: live_system "pool_step dial failFast aliases" "pool_inv failFast aliases"
    "pool_weight aliases" pool_done
  for dial failFast aliases
  by unfold_locales (auto intro: pool_step_inv pool_step_weight pool_progress)

lemma pool_returns:
  "aliases \<noteq> [] \<Longrightarrow> \<exists>p. (pool_step dial failFast aliases)\<^sup>*\<^sup>* (pool_init c aliases s) p \<and> pool_done p"
  by (rule pool.reaches_final [OF pool_inv_init])

lemma pool_reachable:
  "aliases \<noteq> [] \<Longrightarrow> (pool_step dial failFast aliases)\<^sup>*\<^sup>* (pool_init c aliases s) p \<Longrightarrow>
     pool_inv failFast aliases p"
  by (rule pool.inv_steps [OF _ pool_inv_init])

lemma pool_weight_init [simp]:
  "pool_weight aliases (pool_init c aliases s) = 3 * length aliases + dialConcurrency c (length aliases) + 1"
  by (simp add: pool_weight_def pool_init_def sum_list_replicate)

text \<open>C6. The scheduler, the workers and the abort channel never deadlock: every schedule of
  \<open>dialAll\<close> over at least one alias makes a bounded number of steps, and a state in which
  nothing can move is one where all workers have returned.\<close>

theorem pool_terminates:
  assumes "aliases \<noteq> []" and "(pool_step dial failFast aliases ^^ k) (pool_init c aliases s) p"
  shows "k \<le> 3 * length aliases + dialConcurrency c (length aliases) + 1 \<and>
    (pool_done p \<or> (\<exists>p'. pool_step dial failFast aliases p p'))"
proof -
  from assms(2) have "(pool_step dial failFast aliases)\<^sup>*\<^sup>* (pool_init c aliases s) p"
    by (rule relpowp_imp_rtranclp)
  with assms(1) have "pool_inv failFast aliases p" by (rule pool_reachable)
  then show ?thesis
    using pool.run_length [OF pool_inv_init [OF assms(1)] assms(2)] by (auto dest: pool_progress)
qed

lemma pool_terminates_witness:
  "1 \<le> 3 * length [''a''] + dialConcurrency 0 1 + (1 :: nat)"
proof -
  have "pool_step (\<lambda>a (s :: unit). (\<lparr>host = Some a, err = None\<rparr>, s)) True [''a''] (pool_init 0 [''a''] ())
      (pool_init 0 [''a''] () \<lparr>workers := [Dialing 0], todo := 1\<rparr>)"
    using pool_step.send_job [of "pool_init 0 [''a''] ()" "[''a'']" 0]
    by (simp add: pool_init_def dialConcurrency_def)
  then have "(pool_step (\<lambda>a (s :: unit). (\<lparr>host = Some a, err = None\<rparr>, s)) True [''a''] ^^ 1)
      (pool_init 0 [''a''] ()) (pool_init 0 [''a''] () \<lparr>workers := [Dialing 0], todo := 1\<rparr>)"
    by (simp only: relpowp_1)
  from pool_terminates [OF _ this] show ?thesis by simp
qed

section \<open>What is dialed\<close>

lemma done_dialed:
  assumes "pool_inv failFast aliases p" and "pool_done p"
  shows "mset (dialed p) = mset [0..<todo p]"
proof -
  have "in_flight ws = {#}" if "set ws \<subseteq> {Exited}" for ws
    using that by (induction ws) (auto simp: in_flight_def)
  with assms show ?thesis by (simp add: pool_inv_def pool_done_def indices_ok_def)
qed

text \<open>With dials whose result depends on the alias only, the slots hold those results.\<close>

definition slots_ok ::
  "(string \<Rightarrow> 'h sshDialResult) \<Rightarrow> string list \<Rightarrow> ('h, 's) pool \<Rightarrow> bool" where
  "slots_ok res aliases p \<longleftrightarrow> (\<forall>i \<in> set (dialed p). results p ! i = res (aliases ! i))"

lemma slots_ok_step:
  assumes "pool_step dial failFast aliases p p'" and "pool_inv failFast aliases p"
    and "slots_ok res aliases p" and "\<And>a s. a \<in> set aliases \<Longrightarrow> fst (dial a s) = res a"
  shows "slots_ok res aliases p'"
  using assms(1)
proof cases
  case (store k i r s')
  have ix: "indices_ok p" using assms(2) by (simp add: pool_inv_def)
  from indices_facts(3) [OF ix store(2,3)] assms(2) have i: "i < length aliases"
    by (simp add: pool_inv_def)
  then have "r = res (aliases ! i)" using assms(4) store(4) by (metis fst_conv nth_mem)
  with i store assms(2,3) show ?thesis by (auto simp: slots_ok_def pool_inv_def nth_list_update)
qed (use assms(3) in \<open>simp_all add: slots_ok_def\<close>)

lemma slots_ok_reachable:
  assumes "aliases \<noteq> []" and "(pool_step dial failFast aliases)\<^sup>*\<^sup>* (pool_init c aliases s) p"
    and "\<And>a s. a \<in> set aliases \<Longrightarrow> fst (dial a s) = res a"
  shows "slots_ok res aliases p"
  using assms(2)
proof (induction rule: rtranclp_induct)
  case base
  show ?case by (simp add: slots_ok_def pool_init_def)
next
  case (step u v)
  from slots_ok_step [OF step(2) pool_reachable [OF assms(1) step(1)] step(3) assms(3)] show ?case .
qed

lemma done_results:
  assumes "aliases \<noteq> []" and "(pool_step dial failFast aliases)\<^sup>*\<^sup>* (pool_init c aliases s) p"
    and "pool_done p" and "\<And>a s. a \<in> set aliases \<Longrightarrow> fst (dial a s) = res a"
    and "todo p = length aliases"
  shows "results p = map res aliases"
proof (rule nth_equalityI)
  note inv = pool_reachable [OF assms(1,2)]
  show "length (results p) = length (map res aliases)" using inv by (simp add: pool_inv_def)
  fix i assume i: "i < length (results p)"
  have "set (dialed p) = {0..<length aliases}"
    using done_dialed [OF inv assms(3)] assms(5) by (metis mset_eq_setD set_upt)
  with i inv slots_ok_reachable [OF assms(1,2,4)] show "results p ! i = map res aliases ! i"
    by (simp add: slots_ok_def pool_inv_def)
qed

lemma not_aborted_all:
  assumes "pool_inv failFast aliases p" and "pool_done p"
    and "\<forall>i \<in> set (dialed p). \<not> gives_up failFast (results p ! i)"
  shows "todo p = length aliases"
  using assms by (auto simp: pool_inv_def pool_done_def)

lemma pool_slots:
  assumes "aliases \<noteq> []" and "(pool_step dial failFast aliases)\<^sup>*\<^sup>* (pool_init c aliases s) p"
    and "pool_done p" and "\<And>a s. a \<in> set aliases \<Longrightarrow> fst (dial a s) = res a"
    and "\<not> failFast \<or> (\<forall>a \<in> set aliases. err (res a) = None)"
  shows "mset (dialed p) = mset [0..<length aliases] \<and> results p = map res aliases"
proof -
  note inv = pool_reachable [OF assms(1,2)]
  note slots = slots_ok_reachable [OF assms(1,2,4)]
  have ix: "indices_ok p" "todo p \<le> length aliases" using inv by (simp_all add: pool_inv_def)
  have "\<not> gives_up failFast (results p ! i)" if i: "i \<in> set (dialed p)" for i
  proof -
    have "i < length aliases" using indices_facts(2) [OF ix(1)] ix(2) i by auto
    with assms(5) slots i show ?thesis by (auto simp: gives_up_def slots_ok_def)
  qed
  then have "todo p = length aliases" using not_aborted_all [OF inv assms(3)] by blast
  with done_dialed [OF inv assms(3)] done_results [OF assms(1-4)] show ?thesis by simp
qed

text \<open>C5. Unless \<open>failFast\<close> is set and some dial fails, every alias is dialed exactly once and
  its slot holds its result, whatever the number of workers and the schedule: concurrent
  dialing gives the same results as dialing one alias after the other.\<close>

theorem pool_dials_all:
  assumes "aliases \<noteq> []" and "(pool_step dial failFast aliases)\<^sup>*\<^sup>* (pool_init c aliases s) p"
    and "pool_done p" and "\<And>a s. a \<in> set aliases \<Longrightarrow> fst (dial a s) = res a"
    and "\<not> failFast \<or> (\<forall>a \<in> set aliases. err (res a) = None)"
  shows "mset (dialed p) = mset [0..<length aliases] \<and> results p = map res aliases"
  using assms by (rule pool_slots)

definition sample_dial :: "string \<Rightarrow> nat \<Rightarrow> string sshDialResult \<times> nat" where
  "sample_dial a n =
     (if a = ''bad'' then \<lparr>host = None, err = Some (Sentinel ''refused'')\<rparr> else \<lparr>host = Some a, err = None\<rparr>,
      Suc n)"

lemma pool_dials_all_witness:
  "\<exists>p. mset (dialed p) = {#0, 1#} \<and>
     results p = [\<lparr>host = Some ''a'', err = None\<rparr>, \<lparr>host = None, err = Some (Sentinel ''refused'')\<rparr>] \<and>
     shared p = shared (p :: (string, nat) pool)"
proof -
  let ?as = "[''a'', ''bad'']"
  obtain p where p: "(pool_step sample_dial False ?as)\<^sup>*\<^sup>* (pool_init 8 ?as 0) p" "pool_done p"
    using pool_returns [of ?as sample_dial False 8 0] by blast
  from pool_dials_all [OF _ p, of "\<lambda>a. fst (sample_dial a 0)"] show ?thesis
    by (auto simp: sample_dial_def upt_rec)
qed

section \<open>Sequential dialing that fails fast\<close>

definition seq_inv :: "bool \<Rightarrow> ('h, 's) pool \<Rightarrow> bool" where
  "seq_inv failFast p \<longleftrightarrow>
     (\<exists>w. workers p = [w] \<and> dialed p = [0..<length (dialed p)] \<and>
       (\<forall>i < length (dialed p) - of_bool (aborted p). \<not> gives_up failFast (results p ! i)) \<and>
       (aborted p \<longrightarrow> w = Exited) \<and>
       (case w of
          Dialing i \<Rightarrow> i = length (dialed p) \<and> todo p = Suc i
        | _ \<Rightarrow> todo p = length (dialed p)))"

lemma seq_inv_scheduling: "seq_inv failFast (p\<lparr>scheduling := b\<rparr>) \<longleftrightarrow> seq_inv failFast p"
  by (simp add: seq_inv_def cong: worker.case_cong)

lemma seq_inv_step:
  assumes "pool_step dial failFast aliases p p'" and "pool_inv failFast aliases p" and "seq_inv failFast p"
  shows "seq_inv failFast p'"
  using assms(1)
proof cases
  case (send_job k)
  with assms(3) show ?thesis by (auto simp: seq_inv_def)
next
  case (store k i r s')
  from assms(3) have "workers p = [workers p ! 0]" "length (workers p) = 1" by (auto simp: seq_inv_def)
  with store(2,3) have w1: "workers p = [Dialing i]" "k = 0" by auto
  with assms(3) have w: "dialed p = [0..<length (dialed p)]"
    "\<forall>i < length (dialed p). \<not> gives_up failFast (results p ! i)" "\<not> aborted p"
    "i = length (dialed p)" "todo p = Suc i"
    by (auto simp: seq_inv_def)
  have len: "i < length (results p)" using w(5) assms(2) by (simp add: pool_inv_def)
  have "dialed p' = [0..<length (dialed p')]" using w(1,4) store(1) by simp
  moreover have "\<not> gives_up failFast (results p' ! j)"
    if "j < length (dialed p') - of_bool (aborted p')" for j
    using that store(1) w(2,3,4) len by (cases "j = i") (auto simp: nth_list_update split: if_splits)
  ultimately show ?thesis using store(1) w w1 by (auto simp: seq_inv_def split: if_splits)
next
  case (leave k)
  from assms(3) have "workers p = [workers p ! 0]" "length (workers p) = 1" by (auto simp: seq_inv_def)
  with leave(3,4) have "workers p = [Idle]" "k = 0" by auto
  with leave(1) assms(3) show ?thesis by (auto simp: seq_inv_def)
qed (use assms(3) in \<open>simp_all add: seq_inv_scheduling\<close>)

lemma seq_reachable:
  assumes "aliases \<noteq> []" and "(pool_step dial failFast aliases)\<^sup>*\<^sup>* (pool_init c aliases s) p" and "c < 2"
  shows "seq_inv failFast p"
  using assms(2)
proof (induction rule: rtranclp_induct)
  case base
  show ?case using assms(3) by (simp add: seq_inv_def pool_init_def dialConcurrency_def)
next
  case (step u v)
  from seq_inv_step [OF step(2) pool_reachable [OF assms(1) step(1)] step(3)] show ?case .
qed

text \<open>With \<open>failFast\<close> and no concurrency the aliases are dialed in order, up to and
  including the first one whose dial fails, and none after it.\<close>

theorem pool_sequential_failFast:
  assumes "aliases \<noteq> []" and "(pool_step dial True aliases)\<^sup>*\<^sup>* (pool_init c aliases s) p"
    and "pool_done p" and "\<And>a s. a \<in> set aliases \<Longrightarrow> fst (dial a s) = res a" and "c < 2"
  shows "\<exists>n \<le> length aliases. dialed p = [0..<n] \<and>
    (\<forall>i < n - 1. err (res (aliases ! i)) = None) \<and>
    (n < length aliases \<longrightarrow> 0 < n \<and> err (res (aliases ! (n - 1))) \<noteq> None)"
proof -
  note inv = pool_reachable [OF assms(1,2)]
  note seq = seq_reachable [OF assms(1,2,5)]
  have slots: "slots_ok res aliases p" using assms(4) by (intro slots_ok_reachable [OF assms(1,2)])
  let ?n = "length (dialed p)"
  have d: "dialed p = [0..<?n]" and ok: "\<forall>i < ?n - of_bool (aborted p). \<not> gives_up True (results p ! i)"
    using seq by (auto simp: seq_inv_def)
  have todo: "todo p = ?n" using done_dialed [OF inv assms(3)] by (metis length_upt minus_nat.diff_0 size_mset)
  have le: "?n \<le> length aliases" using inv todo by (simp add: pool_inv_def)
  have res: "results p ! i = res (aliases ! i)" if "i < ?n" for i
    using slots that by (subst (asm) slots_ok_def) (metis atLeastLessThan_iff d le0 set_upt)
  have "err (res (aliases ! i)) = None" if "i < ?n - 1" for i
  proof -
    have "i < ?n - of_bool (aborted p)" using that by (cases "aborted p") auto
    with ok res [of i] that show ?thesis by (auto simp: gives_up_def)
  qed
  moreover have "0 < ?n \<and> err (res (aliases ! (?n - 1))) \<noteq> None" if "?n < length aliases"
  proof -
    have "aborted p" using inv assms(3) todo that by (auto simp: pool_inv_def pool_done_def)
    then obtain j where j: "j \<in> set (dialed p)" "gives_up True (results p ! j)"
      using inv by (auto simp: pool_inv_def)
    then have "j < ?n" by (metis atLeastLessThan_iff d set_upt)
    moreover have "\<not> j < ?n - 1" using ok j(2) \<open>aborted p\<close> by auto
    ultimately have "j = ?n - 1" "0 < ?n" by linarith+
    with j(2) res [of j] show ?thesis by (simp add: gives_up_def)
  qed
  ultimately show ?thesis using d le by blast
qed

lemma pool_sequential_failFast_witness:
  "\<exists>p :: (string, nat) pool. dialed p = [0, 1]"
proof -
  let ?as = "[''a'', ''bad'', ''c'']"
  obtain p where p: "(pool_step sample_dial True ?as)\<^sup>*\<^sup>* (pool_init 0 ?as 0) p" "pool_done p"
    using pool_returns [of ?as sample_dial True 0 0] by blast
  define res where "res a = fst (sample_dial a 0)" for a
  have "fst (sample_dial a s) = res a" if "a \<in> set ?as" for a s by (simp add: res_def sample_dial_def)
  from pool_sequential_failFast [OF _ p this]
  obtain n where n: "n \<le> length ?as" "dialed p = [0..<n]" "\<forall>i < n - 1. err (res (?as ! i)) = None"
    "n < length ?as \<longrightarrow> 0 < n \<and> err (res (?as ! (n - 1))) \<noteq> None"
    by auto
  have "n \<noteq> 0" "n \<noteq> 1" using n(4) by (auto simp: res_def sample_dial_def)
  moreover have "n \<noteq> 3" using n(3) [rule_format, of 1] by (auto simp: res_def sample_dial_def)
  ultimately have "n = 2" using n(1) by (simp add: numeral_2_eq_2 numeral_3_eq_3; linarith)
  with n(2) show ?thesis by (auto simp: upt_rec)
qed

end
