(* ===== verification/Group_Dialer.thy ===== *)
theory Group_Dialer
  imports Group_Options Client_Config Ssh_Host Dial_Pool
begin

text \<open>
  ssh.go, assembling a group: the shared jump connections (\<open>dialJump\<close>, \<open>prepareJumps\<close>,
  \<open>jumpFor\<close>), dialing one target (\<open>dialTarget\<close>, \<open>dialViaProxy\<close>), dialing all of them
  through the worker pool (\<open>dialAll\<close>), collecting the outcomes, and \<open>NewSSHGroup\<close> with its
  clean-up on error.

  \<open>jumpClients\<close> is a Go map: an association list here, in the order of insertion. The loops
  that range over it see its entries in an unspecified order, which is the argument
  \<open>order\<close>. The network calls are the fields of \<open>net_lib\<close>.
\<close>

record ('conn, 'signer, 'cb, 'cl, 'nc, 'w) net_lib =
  conf :: "('conn, 'signer, 'cb) client_env"
  SshDial :: "string \<Rightarrow> ('signer, 'cb) clientConfig \<Rightarrow> 'w \<Rightarrow> (err + 'cl) \<times> 'w"
  DialContext :: "'cl \<Rightarrow> int option \<Rightarrow> string \<Rightarrow> 'w \<Rightarrow> (err + 'nc) \<times> 'w"
  NewClientConn :: "'nc \<Rightarrow> string \<Rightarrow> ('signer, 'cb) clientConfig \<Rightarrow> 'w \<Rightarrow> (err + 'cl) \<times> 'w"

section \<open>Dialing a jump host and a target\<close>

definition dialJump ::
  "('conn, 'signer, 'cb, 'cl, 'nc, 'w) net_lib \<Rightarrow> string \<Rightarrow> sshConfig \<Rightarrow> ('w, 'cl) io" where
  "dialJump N proxySpec config st =
     (case ClientConfig (conf N) config proxySpec of
        Inl e \<Rightarrow> (Inl (Wrapf ''proxy jump %q: %w'' [proxySpec] e), st)
      | Inr jumpCfg \<Rightarrow>
          (case open_call RJump (SshDial N (ConnectAddr config proxySpec) jumpCfg)
                  (emit (DialedJump proxySpec) st) of
             (Inl e, st1) \<Rightarrow> (Inl (Wrapf ''dial proxy jump %q: %w'' [proxySpec] e), st1)
           | (Inr cl, st1) \<Rightarrow> (Inr cl, st1)))"

definition DialSSH ::
  "('conn, 'signer, 'cb, 'cl, 'nc, 'w) net_lib \<Rightarrow> ('cl, 'ac, 'sftp, 'sess, 'w) ssh_lib
     \<Rightarrow> string \<Rightarrow> string \<Rightarrow> ('signer, 'cb) clientConfig \<Rightarrow> ('w, ('cl, 'ac, 'sftp, 'v) sshHost) io" where
  "DialSSH N L nm addr cfg st =
     (case open_call RClient (SshDial N addr cfg) st of
        (Inl e, st1) \<Rightarrow> (Inl e, st1)
      | (Inr cl, st1) \<Rightarrow> newHostFromClient L nm cl False 0 st1)"

text \<open>
  \<open>jump.DialContext\<close> gets the deadline of the context, if any. A connection it opened is
  closed by \<open>ssh.NewClientConn\<close> when that fails.
\<close>

definition dialViaProxy ::
  "('conn, 'signer, 'cb, 'cl, 'nc, 'w) net_lib \<Rightarrow> ('cl, 'ac, 'sftp, 'sess, 'w) ssh_lib
     \<Rightarrow> string \<Rightarrow> string \<Rightarrow> ('signer, 'cb) clientConfig \<Rightarrow> 'cl \<Rightarrow> bool \<Rightarrow> int
     \<Rightarrow> ('w, ('cl, 'ac, 'sftp, 'v) sshHost) io" where
  "dialViaProxy N L nm addr cfg jump fwd keepAlive st =
     (case plain_call (DialContext N jump
             (if 0 < clientConfig.Timeout cfg then Some (clientConfig.Timeout cfg) else None) addr) st of
        (Inl e, st1) \<Rightarrow> (Inl e, st1)
      | (Inr conn, st1) \<Rightarrow>
          (case open_call RClient (NewClientConn N conn addr cfg) st1 of
             (Inl e, st2) \<Rightarrow> (Inl e, st2)
           | (Inr cl, st2) \<Rightarrow> newHostFromClient L nm cl fwd keepAlive st2))"

definition dialTarget ::
  "('conn, 'signer, 'cb, 'cl, 'nc, 'w) net_lib \<Rightarrow> ('cl, 'ac, 'sftp, 'sess, 'w) ssh_lib
     \<Rightarrow> string \<Rightarrow> sshConfig \<Rightarrow> 'cl option \<Rightarrow> bool \<Rightarrow> int \<Rightarrow> ('w, ('cl, 'ac, 'sftp, 'v) sshHost) io" where
  "dialTarget N L alias config jump forceForwardAgent keepAlive st =
     (case ClientConfig (conf N) config alias of
        Inl e \<Rightarrow> (Inl e, st)
      | Inr clientCfg \<Rightarrow>
          (case Ssh_Config.forwardAgent config alias of
             Inl e \<Rightarrow> (Inl e, st)
           | Inr configForwardAgent \<Rightarrow>
               (let fwd = (forceForwardAgent \<or> configForwardAgent);
                    addr = ConnectAddr config alias
                in (case jump of
                      None \<Rightarrow>
                        (case open_call RClient (SshDial N addr clientCfg) st of
                           (Inl e, st1) \<Rightarrow> (Inl e, st1)
                         | (Inr cl, st1) \<Rightarrow> newHostFromClient L alias cl fwd keepAlive st1)
                    | Some j \<Rightarrow> dialViaProxy N L alias addr clientCfg j fwd keepAlive st))))"

section \<open>The dialer\<close>

record ('cl, 'c, 'h) groupDialer =
  config :: sshConfig
  aliases :: "string list"
  cfg :: "'c groupConfig"
  jumpClients :: "(string \<times> 'cl) list"
  jumpErrs :: "string \<rightharpoonup> err"
  hosts :: "'h list"
  dialErrs :: "string \<rightharpoonup> err"

definition newGroupDialer :: "sshConfig \<Rightarrow> string list \<Rightarrow> 'c groupConfig \<Rightarrow> ('cl, 'c, 'h) groupDialer" where
  "newGroupDialer cw als c =
     \<lparr>config = cw, aliases = als, cfg = c, jumpClients = [], jumpErrs = Map.empty, hosts = [],
      dialErrs = Map.empty\<rparr>"

fun prepare_loop ::
  "('conn, 'signer, 'cb, 'cl, 'nc, 'w) net_lib \<Rightarrow> string list \<Rightarrow> ('cl, 'c, 'h) groupDialer
     \<Rightarrow> 'w io_state \<Rightarrow> error \<times> ('cl, 'c, 'h) groupDialer \<times> 'w io_state" where
  "prepare_loop N [] d st = (None, d, st)"
| "prepare_loop N (alias # as) d st =
     (case get (config d) alias ''ProxyJump'' of
        Inl e \<Rightarrow> prepare_loop N as d st
      | Inr proxySpec \<Rightarrow>
          if proxySpec = [] \<or> proxySpec = ''none'' then prepare_loop N as d st
          else if map_of (jumpClients d) proxySpec \<noteq> None then prepare_loop N as d st
          else if jumpErrs d proxySpec \<noteq> None then prepare_loop N as d st
          else
            (case dialJump N proxySpec (config d) st of
               (Inl e, st1) \<Rightarrow>
                 if failFast (cfg d) then (Some e, d, st1)
                 else prepare_loop N as (d\<lparr>jumpErrs := (jumpErrs d)(proxySpec \<mapsto> e)\<rparr>) st1
             | (Inr cl, st1) \<Rightarrow>
                 prepare_loop N as (d\<lparr>jumpClients := jumpClients d @ [(proxySpec, cl)]\<rparr>) st1))"

definition prepareJumps ::
  "('conn, 'signer, 'cb, 'cl, 'nc, 'w) net_lib \<Rightarrow> ('cl, 'c, 'h) groupDialer
     \<Rightarrow> 'w io_state \<Rightarrow> error \<times> ('cl, 'c, 'h) groupDialer \<times> 'w io_state" where
  "prepareJumps N d st = prepare_loop N (aliases d) d st"

definition jumpFor :: "('cl, 'c, 'h) groupDialer \<Rightarrow> string \<Rightarrow> err + 'cl option" where
  "jumpFor d alias =
     (case get (config d) alias ''ProxyJump'' of
        Inl e \<Rightarrow> Inl e
      | Inr proxySpec \<Rightarrow>
          if proxySpec = [] \<or> proxySpec = ''none'' then Inr None
          else
            (case jumpErrs d proxySpec of
               Some e \<Rightarrow> Inl e
             | None \<Rightarrow>
                 (case map_of (jumpClients d) proxySpec of
                    None \<Rightarrow> Inl (Errorf ''iago: proxy jump %q was not prepared'' [proxySpec])
                  | Some cl \<Rightarrow> Inr (Some cl))))"

definition dialOne ::
  "('conn, 'signer, 'cb, 'cl, 'nc, 'w) net_lib \<Rightarrow> ('cl, 'ac, 'sftp, 'sess, 'w) ssh_lib
     \<Rightarrow> ('cl, 'c, ('cl, 'ac, 'sftp, 'v) sshHost) groupDialer \<Rightarrow> string \<Rightarrow> 'w io_state
     \<Rightarrow> ('cl, 'ac, 'sftp, 'v) sshHost sshDialResult \<times> 'w io_state" where
  "dialOne N L d alias st =
     (case jumpFor d alias of
        Inl e \<Rightarrow> (\<lparr>host = None, err = Some e\<rparr>, st)
      | Inr jump \<Rightarrow>
          (case dialTarget N L alias (config d) jump
                  (groupConfig.forwardAgent (cfg d)) (keepAliveInterval (cfg d)) st of
             (Inl e, st1) \<Rightarrow> (\<lparr>host = None, err = Some e\<rparr>, st1)
           | (Inr h, st1) \<Rightarrow> (\<lparr>host = Some h, err = None\<rparr>, st1)))"

fun collect_loop ::
  "string list \<Rightarrow> 'h sshDialResult list \<Rightarrow> 'h list \<Rightarrow> (string \<rightharpoonup> err) \<Rightarrow> 'h list \<times> (string \<rightharpoonup> err)" where
  "collect_loop (alias # as) (r # rs) hs es =
     collect_loop as rs
       (case host r of None \<Rightarrow> hs | Some h \<Rightarrow> hs @ [h])
       (case err r of None \<Rightarrow> es | Some e \<Rightarrow> es(alias \<mapsto> e))"
| "collect_loop _ _ hs es = (hs, es)"

definition collect ::
  "('cl, 'c, 'h) groupDialer \<Rightarrow> 'h sshDialResult list \<Rightarrow> ('cl, 'c, 'h) groupDialer" where
  "collect d rs =
     (case collect_loop (aliases d) rs [] (dialErrs d) of
        (hs, es) \<Rightarrow> d\<lparr>hosts := hs, dialErrs := es\<rparr>)"

fun first_error :: "(string \<rightharpoonup> err) \<Rightarrow> string list \<Rightarrow> error" where
  "first_error es [] = None"
| "first_error es (alias # as) = (case es alias of Some e \<Rightarrow> Some e | None \<Rightarrow> first_error es as)"

definition firstDialError :: "('cl, 'c, 'h) groupDialer \<Rightarrow> error" where
  "firstDialError d = first_error (dialErrs d) (aliases d)"

fun alias_errors :: "(string \<rightharpoonup> err) \<Rightarrow> string list \<Rightarrow> error list" where
  "alias_errors es [] = []"
| "alias_errors es (alias # as) =
     (case es alias of
        Some e \<Rightarrow> Some (Wrapf ''%s: %w'' [alias] e) # alias_errors es as
      | None \<Rightarrow> alias_errors es as)"

text \<open>The combined error wraps the joined ones, of which there is at least one.\<close>

definition allFailedError :: "('cl, 'c, 'h) groupDialer \<Rightarrow> error" where
  "allFailedError d =
     (if hosts d \<noteq> [] \<or> dialErrs d = Map.empty then None
      else
        (case errors_Join (alias_errors (dialErrs d) (aliases d)) of
           None \<Rightarrow> Some (Errorf ''iago: failed to dial any hosts: %w'' [])
         | Some e \<Rightarrow> Some (Wrapf ''iago: failed to dial any hosts: %w'' [] e)))"

definition group ::
  "((string \<times> 'cl) list \<Rightarrow> (string \<times> 'cl) list) \<Rightarrow> ('cl, 'c, 'h) groupDialer \<Rightarrow> ('h, 'c, 'cl) Group" where
  "group order d =
     (let g = (NewGroup (hosts d))\<lparr>DialErrors := dialErrs d\<rparr>;
          g' = (case errorHandler (cfg d) of None \<Rightarrow> g | Some h \<Rightarrow> g\<lparr>ErrorHandler := h\<rparr>)
      in g'\<lparr>sharedClosers := sharedClosers g' @ map snd (order (jumpClients d))\<rparr>)"

fun close_hosts ::
  "('cl, 'ac, 'sftp, 'sess, 'w) ssh_lib \<Rightarrow> ('cl, 'ac, 'sftp, 'v) sshHost list \<Rightarrow> 'w io_state \<Rightarrow> 'w io_state" where
  "close_hosts L [] st = st"
| "close_hosts L (h # hs) st = close_hosts L hs (snd (Close L h st))"

fun close_jumps ::
  "('cl, 'ac, 'sftp, 'sess, 'w) ssh_lib \<Rightarrow> (string \<times> 'cl) list \<Rightarrow> 'w io_state \<Rightarrow> 'w io_state" where
  "close_jumps L [] st = st"
| "close_jumps L ((spec, jc) # js) st = close_jumps L js (snd (close_call RJump (CloseClient L jc) st))"

definition closeOnError ::
  "('cl, 'ac, 'sftp, 'sess, 'w) ssh_lib \<Rightarrow> ((string \<times> 'cl) list \<Rightarrow> (string \<times> 'cl) list)
     \<Rightarrow> ('cl, 'c, ('cl, 'ac, 'sftp, 'v) sshHost) groupDialer \<Rightarrow> error \<Rightarrow> 'w io_state \<Rightarrow> 'w io_state" where
  "closeOnError L order d e st =
     (if e = None then st
      else close_jumps L (order (jumpClients d)) (close_hosts L (hosts d) st))"

section \<open>dialAll and NewSSHGroup\<close>

text \<open>The end of \<open>dialAll\<close>, once the workers have returned.\<close>

definition dialAll_finish ::
  "('cl, 'c, 'h) groupDialer \<Rightarrow> 'h sshDialResult list \<Rightarrow> error \<times> ('cl, 'c, 'h) groupDialer" where
  "dialAll_finish d rs =
     (let d' = collect d rs in
      if failFast (cfg d) \<and> firstDialError d' \<noteq> None then (firstDialError d', d')
      else (allFailedError d', d'))"

text \<open>
  \<open>dialAll N L d st (e, d', st')\<close>: some schedule of the workers leads to the error \<open>e\<close>, the
  dialer \<open>d'\<close> and the state \<open>st'\<close>.
\<close>

inductive dialAll ::
  "('conn, 'signer, 'cb, 'cl, 'nc, 'w) net_lib \<Rightarrow> ('cl, 'ac, 'sftp, 'sess, 'w) ssh_lib
     \<Rightarrow> ('cl, 'c, ('cl, 'ac, 'sftp, 'v) sshHost) groupDialer \<Rightarrow> 'w io_state
     \<Rightarrow> error \<times> ('cl, 'c, ('cl, 'ac, 'sftp, 'v) sshHost) groupDialer \<times> 'w io_state \<Rightarrow> bool"
  for N L d st where
  no_aliases: "aliases d = [] \<Longrightarrow> dialAll N L d st (None, d, st)"
| schedule: "aliases d \<noteq> [] \<Longrightarrow>
    (pool_step (dialOne N L d) (failFast (cfg d)) (aliases d))\<^sup>*\<^sup>*
      (pool_init (groupConfig.dialConcurrency (cfg d)) (aliases d) st) p \<Longrightarrow>
    pool_done p \<Longrightarrow> dialAll_finish d (results p) = (e, d') \<Longrightarrow>
    dialAll N L d st (e, d', pool.shared p)"

inductive NewSSHGroup ::
  "os_env \<Rightarrow> ('conn, 'signer, 'cb, 'cl, 'nc, 'w) net_lib \<Rightarrow> ('cl, 'ac, 'sftp, 'sess, 'w) ssh_lib
     \<Rightarrow> ((string \<times> 'cl) list \<Rightarrow> (string \<times> 'cl) list)
     \<Rightarrow> string list \<Rightarrow> string \<Rightarrow> 'c groupOption list \<Rightarrow> 'w io_state
     \<Rightarrow> (err + (('cl, 'ac, 'sftp, 'v) sshHost, 'c, 'cl) Group) \<times> 'w io_state \<Rightarrow> bool"
  for E N L order hostAliases sshConfigFile opts st where
  no_config_file: "resolveSSHConfigFile E sshConfigFile = Inl e \<Longrightarrow>
    NewSSHGroup E N L order hostAliases sshConfigFile opts st (Inl e, st)"
| bad_config: "resolveSSHConfigFile E sshConfigFile = Inr f \<Longrightarrow> ParseSSHConfig E f = Inl e \<Longrightarrow>
    NewSSHGroup E N L order hostAliases sshConfigFile opts st (Inl e, st)"
| jump_failed: "resolveSSHConfigFile E sshConfigFile = Inr f \<Longrightarrow> ParseSSHConfig E f = Inr cw \<Longrightarrow>
    prepareJumps N (newGroupDialer cw hostAliases (applyGroupOptions opts)) st =
      (Some e, (d1 :: ('cl, 'c, ('cl, 'ac, 'sftp, 'v) sshHost) groupDialer), st1) \<Longrightarrow>
    NewSSHGroup E N L order hostAliases sshConfigFile opts st (Inl e, closeOnError L order d1 (Some e) st1)"
| dial_failed: "resolveSSHConfigFile E sshConfigFile = Inr f \<Longrightarrow> ParseSSHConfig E f = Inr cw \<Longrightarrow>
    prepareJumps N (newGroupDialer cw hostAliases (applyGroupOptions opts)) st =
      (None, (d1 :: ('cl, 'c, ('cl, 'ac, 'sftp, 'v) sshHost) groupDialer), st1) \<Longrightarrow>
    dialAll N L d1 st1 (Some e, d2, st2) \<Longrightarrow>
    NewSSHGroup E N L order hostAliases sshConfigFile opts st (Inl e, closeOnError L order d2 (Some e) st2)"
| dialed: "resolveSSHConfigFile E sshConfigFile = Inr f \<Longrightarrow> ParseSSHConfig E f = Inr cw \<Longrightarrow>
    prepareJumps N (newGroupDialer cw hostAliases (applyGroupOptions opts)) st = (None, d1, st1) \<Longrightarrow>
    dialAll N L d1 st1 (None, d2, st2) \<Longrightarrow>
    NewSSHGroup E N L order hostAliases sshConfigFile opts st
      (Inr (group order d2), closeOnError L order d2 None st2)"

section \<open>Jump connections\<close>

definition jump_spec :: "sshConfig \<Rightarrow> string \<Rightarrow> string option" where
  "jump_spec cw alias =
     (case get cw alias ''ProxyJump'' of
        Inl e \<Rightarrow> None
      | Inr s \<Rightarrow> if s = [] \<or> s = ''none'' then None else Some s)"

definition prepared :: "('cl, 'c, 'h) groupDialer \<Rightarrow> string \<Rightarrow> bool" where
  "prepared d s \<longleftrightarrow> map_of (jumpClients d) s \<noteq> None \<or> jumpErrs d s \<noteq> None"

fun jumps_dialed :: "event list \<Rightarrow> string list" where
  "jumps_dialed [] = []"
| "jumps_dialed (DialedJump s # es) = s # jumps_dialed es"
| "jumps_dialed (_ # es) = jumps_dialed es"

lemma jumps_dialed_append [simp]: "jumps_dialed (es @ fs) = jumps_dialed es @ jumps_dialed fs"
  by (induction es rule: jumps_dialed.induct) simp_all

lemma prepare_loop_Cons:
  "prepare_loop N (alias # as) d st =
     (case jump_spec (config d) alias of
        None \<Rightarrow> prepare_loop N as d st
      | Some s \<Rightarrow>
          if prepared d s then prepare_loop N as d st
          else
            (case dialJump N s (config d) st of
               (Inl e, st1) \<Rightarrow>
                 if failFast (cfg d) then (Some e, d, st1)
                 else prepare_loop N as (d\<lparr>jumpErrs := (jumpErrs d)(s \<mapsto> e)\<rparr>) st1
             | (Inr cl, st1) \<Rightarrow> prepare_loop N as (d\<lparr>jumpClients := jumpClients d @ [(s, cl)]\<rparr>) st1))"
  by (auto simp: jump_spec_def prepared_def split: sum.splits prod.splits)

declare prepare_loop.simps(2) [simp del]

lemma dialJump_adds:
  assumes "dialJump N s cw st = (x, st')"
  obtains es where "adds st st' es" "jumps_dialed es = [] \<or> jumps_dialed es = [s]"
    "\<forall>r. balance r es = of_bool (r = RJump \<and> \<not> isl x)"
proof (cases "ClientConfig (conf N) cw s")
  case (Inl e)
  with assms have "st' = st" "isl x" by (auto simp: dialJump_def)
  with that [of "[]"] show ?thesis by simp
next
  case (Inr c)
  obtain y st1 where 1: "open_call RJump (SshDial N (ConnectAddr cw s) c) (emit (DialedJump s) st) = (y, st1)"
    by fastforce
  with Inr assms have "st' = st1" "isl x = isl y" by (auto simp: dialJump_def split: sum.splits)
  moreover note adds_trans [OF adds_emit adds_open [OF 1]]
  ultimately show ?thesis by (intro that) (auto split: sum.splits)
qed

text \<open>What the loop of \<open>prepareJumps\<close> guarantees about the events it adds and the dialer.\<close>

definition prepare_post ::
  "string list \<Rightarrow> ('cl, 'c, 'h) groupDialer \<Rightarrow> error \<Rightarrow> ('cl, 'c, 'h) groupDialer \<Rightarrow> event list \<Rightarrow> bool" where
  "prepare_post as d e d' es \<longleftrightarrow>
     distinct (jumps_dialed es) \<and> (\<forall>s \<in> set (jumps_dialed es). \<not> prepared d s) \<and>
     (\<forall>r. balance r es =
        of_bool (r = RJump) * (int (length (jumpClients d')) - int (length (jumpClients d)))) \<and>
     (\<forall>s. prepared d s \<longrightarrow> prepared d' s) \<and>
     (e = None \<longrightarrow> (\<forall>a \<in> set as. \<forall>s. jump_spec (config d) a = Some s \<longrightarrow> prepared d' s)) \<and>
     config d' = config d \<and> aliases d' = aliases d \<and> cfg d' = cfg d \<and> hosts d' = hosts d \<and>
     dialErrs d' = dialErrs d"

lemma prepare_post_refl: "as = [] \<or> e \<noteq> None \<Longrightarrow> prepare_post as d e d []"
  by (auto simp: prepare_post_def)

lemma prepare_post_skip:
  assumes "prepare_post as d e d' es" and "\<And>s. jump_spec (config d) a = Some s \<Longrightarrow> prepared d s"
  shows "prepare_post (a # as) d e d' es"
  using assms by (auto simp: prepare_post_def)

lemma prepare_post_step:
  assumes "prepare_post as d1 e d' fs" and "jump_spec (config d) a = Some s" and "\<not> prepared d s"
    and "\<And>s'. prepared d1 s' \<longleftrightarrow> prepared d s' \<or> s' = s"
    and "config d1 = config d" "aliases d1 = aliases d" "cfg d1 = cfg d" "hosts d1 = hosts d"
      "dialErrs d1 = dialErrs d"
    and "jumps_dialed es = [] \<or> jumps_dialed es = [s]"
    and "\<forall>r. balance r es =
      of_bool (r = RJump) * (int (length (jumpClients d1)) - int (length (jumpClients d)))"
  shows "prepare_post (a # as) d e d' (es @ fs)"
proof -
  note post = assms(1) [unfolded prepare_post_def]
  have np: "\<forall>t \<in> set (jumps_dialed fs). \<not> prepared d t \<and> t \<noteq> s" using post assms(4) by blast
  have "distinct (jumps_dialed (es @ fs))" using assms(10) np post by auto
  moreover have "\<forall>t \<in> set (jumps_dialed (es @ fs)). \<not> prepared d t" using assms(3,10) np by auto
  moreover have "\<forall>r. balance r (es @ fs) =
      of_bool (r = RJump) * (int (length (jumpClients d')) - int (length (jumpClients d)))"
    using assms(11) post by (simp add: of_bool_def)
  moreover have "\<forall>t. prepared d t \<longrightarrow> prepared d' t" using post assms(4) by blast
  moreover have "e = None \<longrightarrow> (\<forall>b \<in> set (a # as). \<forall>t. jump_spec (config d) b = Some t \<longrightarrow> prepared d' t)"
    using post assms(2,4,5) by auto
  ultimately show ?thesis using post assms(5-9) by (simp add: prepare_post_def)
qed

lemma prepare_loop_post:
  assumes "prepare_loop N as d st = (e, d', st')"
  shows "\<exists>es. adds st st' es \<and> prepare_post as d e d' es"
  using assms
proof (induction as arbitrary: d st)
  case Nil
  then show ?case by (auto intro!: exI [of _ "[]"] prepare_post_refl)
next
  case (Cons a as)
  show ?case
  proof (cases "\<exists>s. jump_spec (config d) a = Some s \<and> \<not> prepared d s")
    case False
    with Cons.prems have "prepare_loop N as d st = (e, d', st')"
      by (auto simp: prepare_loop_Cons split: option.splits if_splits)
    with Cons.IH False prepare_post_skip [of as d e d' _ a] show ?thesis by metis
  next
    case True
    then obtain s where s: "jump_spec (config d) a = Some s" "\<not> prepared d s" by blast
    obtain x st1 where j: "dialJump N s (config d) st = (x, st1)" by fastforce
    obtain es where es: "adds st st1 es" "jumps_dialed es = [] \<or> jumps_dialed es = [s]"
      "\<forall>r. balance r es = of_bool (r = RJump \<and> \<not> isl x)"
      using j by (rule dialJump_adds)
    show ?thesis
    proof (cases x)
      case (Inr cl)
      let ?d = "d\<lparr>jumpClients := jumpClients d @ [(s, cl)]\<rparr>"
      from Cons.prems s j Inr have "prepare_loop N as ?d st1 = (e, d', st')"
        by (simp add: prepare_loop_Cons)
      from Cons.IH [OF this] obtain fs where fs: "adds st1 st' fs" "prepare_post as ?d e d' fs" by blast
      have "prepare_post (a # as) d e d' (es @ fs)"
        by (rule prepare_post_step [OF fs(2) s])
          (use es(2,3) Inr in \<open>auto simp: prepared_def split: option.splits\<close>)
      with adds_trans [OF es(1) fs(1)] show ?thesis by blast
    next
      case (Inl e')
      show ?thesis
      proof (cases "failFast (cfg d)")
        case True
        with Cons.prems s j Inl have eq: "e = Some e'" "d' = d" "st' = st1"
          by (simp_all add: prepare_loop_Cons)
        have "prepare_post (a # as) d e d es"
          using es(2,3) Inl s(2) eq(1) by (auto simp: prepare_post_def)
        with es(1) eq show ?thesis by blast
      next
        case False
        let ?d = "d\<lparr>jumpErrs := (jumpErrs d)(s \<mapsto> e')\<rparr>"
        from Cons.prems s j Inl False have "prepare_loop N as ?d st1 = (e, d', st')"
          by (simp add: prepare_loop_Cons)
        from Cons.IH [OF this] obtain fs where fs: "adds st1 st' fs" "prepare_post as ?d e d' fs" by blast
        have "prepare_post (a # as) d e d' (es @ fs)"
          by (rule prepare_post_step [OF fs(2) s])
            (use es(2,3) Inl in \<open>auto simp: prepared_def\<close>)
        with adds_trans [OF es(1) fs(1)] show ?thesis by blast
      qed
    qed
  qed
qed

lemma newGroupDialer_simps [simp]:
  "config (newGroupDialer cw als c) = cw" "aliases (newGroupDialer cw als c) = als"
  "cfg (newGroupDialer cw als c) = c" "jumpClients (newGroupDialer cw als c) = []"
  "jumpErrs (newGroupDialer cw als c) = Map.empty" "hosts (newGroupDialer cw als c) = []"
  "dialErrs (newGroupDialer cw als c) = Map.empty"
  by (simp_all add: newGroupDialer_def)

lemma not_prepared_new [simp]: "\<not> prepared (newGroupDialer cw als c) s"
  by (simp add: prepared_def)

lemma jumpFor_eq:
  "jumpFor d alias =
     (case get (config d) alias ''ProxyJump'' of
        Inl e \<Rightarrow> Inl e
      | Inr _ \<Rightarrow>
          (case jump_spec (config d) alias of
             None \<Rightarrow> Inr None
           | Some s \<Rightarrow>
               (case jumpErrs d s of
                  Some e \<Rightarrow> Inl e
                | None \<Rightarrow>
                    (case map_of (jumpClients d) s of
                       None \<Rightarrow> Inl (Errorf ''iago: proxy jump %q was not prepared'' [s])
                     | Some cl \<Rightarrow> Inr (Some cl)))))"
  by (auto simp: jumpFor_def jump_spec_def split: sum.splits)

text \<open>C16. \<open>prepareJumps\<close> dials each jump host at most once, however many aliases share it, and
  after it succeeds \<open>jumpFor\<close> yields for every alias with a jump the shared client, or the
  error of dialing it; never the programming error that the jump was not prepared.\<close>

theorem prepareJumps_once:
  assumes "prepareJumps N (newGroupDialer cw als c) st = (e, d, st')" and "trace st' = trace st @ es"
  shows "distinct (jumps_dialed es) \<and>
    (e = None \<longrightarrow> (\<forall>a \<in> set als. \<forall>s. jump_spec cw a = Some s \<longrightarrow>
      (\<exists>x. jumpErrs d s = Some x \<and> jumpFor d a = Inl x) \<or>
      (\<exists>cl. map_of (jumpClients d) s = Some cl \<and> jumpFor d a = Inr (Some cl))))"
proof -
  from assms(1) obtain fs where fs: "adds st st' fs" "prepare_post als (newGroupDialer cw als c) e d fs"
    unfolding prepareJumps_def using prepare_loop_post by fastforce
  have "fs = es" using fs(1) assms(2) by (simp add: adds_def)
  have cw: "config d = cw" using fs(2) by (simp add: prepare_post_def)
  have "(\<exists>x. jumpErrs d s = Some x \<and> jumpFor d a = Inl x) \<or>
      (\<exists>cl. map_of (jumpClients d) s = Some cl \<and> jumpFor d a = Inr (Some cl))"
    if "e = None" "a \<in> set als" "jump_spec cw a = Some s" for a s
  proof -
    have "prepared d s" using fs(2) that by (auto simp: prepare_post_def)
    moreover have "\<exists>v. get cw a ''ProxyJump'' = Inr v" using that(3) by (auto simp: jump_spec_def split: sum.splits)
    ultimately show ?thesis using that(3) cw
      by (cases "jumpErrs d s") (auto simp: jumpFor_eq prepared_def)
  qed
  with fs(2) \<open>fs = es\<close> show ?thesis by (simp add: prepare_post_def)
qed

definition sample_net :: "(unit, string, string list, unit, unit, nat) net_lib" where
  "sample_net =
     \<lparr>conf = sample_client, SshDial = (\<lambda>addr c w. (Inr (), w)),
      DialContext = (\<lambda>j d addr w. (Inr (), w)), NewClientConn = (\<lambda>c addr k w. (Inr (), w))\<rparr>"

text \<open>Two aliases behind the jump host \<open>gate\<close> and one that is reached directly.\<close>

definition jump_config :: sshConfig where
  "jump_config =
     \<lparr>Get = (\<lambda>a k. Inr (if k = ''StrictHostKeyChecking'' then ''no''
               else if k = ''ProxyJump'' \<and> (a = ''n1'' \<or> a = ''n2'') then ''gate'' else [])),
      Default = (\<lambda>k. []), Hosts = []\<rparr>"

lemma sample_jump_ClientConfig:
  "ClientConfig sample_client jump_config ''gate'' =
     Inr \<lparr>User = ''me'', Auth = [''AGENT''], HostKeyCallback = InsecureIgnoreHostKey,
       HostKeyAlgorithms = [], Timeout = 0\<rparr>"
  by code_simp

lemma prepareJumps_once_witness:
  "\<exists>d :: (unit, unit, unit) groupDialer.
     distinct (jumps_dialed [DialedJump ''gate'', Opened RJump]) \<and> jumpFor d ''n2'' = Inr (Some ())"
proof -
  let ?d = "newGroupDialer jump_config [''n1'', ''n2'', ''m''] zero_groupConfig :: (unit, unit, unit) groupDialer"
  let ?st = "\<lparr>ext = 0 :: nat, trace = []\<rparr>"
  have specs: "jump_spec jump_config ''n1'' = Some ''gate''" "jump_spec jump_config ''n2'' = Some ''gate''"
    "jump_spec jump_config ''m'' = None"
    by (simp_all add: jump_spec_def get_def jump_config_def)
  have "dialJump sample_net ''gate'' jump_config ?st =
      (Inr (), emit (Opened RJump) (emit (DialedJump ''gate'') ?st))"
    by (simp add: dialJump_def sample_net_def sample_jump_ClientConfig open_call_def emit_def)
  with specs have "prepareJumps sample_net ?d ?st =
      (None, ?d\<lparr>jumpClients := [(''gate'', ())]\<rparr>, emit (Opened RJump) (emit (DialedJump ''gate'') ?st))"
    by (simp add: prepareJumps_def prepare_loop_Cons prepared_def)
  from prepareJumps_once [OF this, of "[DialedJump ''gate'', Opened RJump]"] specs show ?thesis
    by fastforce
qed

section \<open>What dialing a target opens\<close>

definition owned :: "('cl, 'ac, 'sftp, 'v) sshHost \<Rightarrow> resource \<Rightarrow> int" where
  "owned h r = of_bool (r = RClient) + of_bool (r = RSftp) + of_bool (r = RAgent \<and> agentConn h \<noteq> None)"

definition dial_post :: "err + ('cl, 'ac, 'sftp, 'v) sshHost \<Rightarrow> event list \<Rightarrow> bool" where
  "dial_post x es \<longleftrightarrow>
     balance RJump es = 0 \<and> balance RSession es = 0 \<and>
     (case x of
        Inl e \<Rightarrow> balance RAgent es = 0 \<and> Closed RClient \<notin> set es
      | Inr h \<Rightarrow> (\<forall>r. balance r es = owned h r))"

lemma Close_balance:
  "Close L h st = (e, st') \<Longrightarrow> \<exists>es. adds st st' es \<and> (\<forall>r. balance r es = - owned h r)"
  by (drule Close_adds) (auto simp: owned_def)

lemma close_hosts_balance:
  "\<exists>es. adds st (close_hosts L hs st) es \<and> (\<forall>r. balance r es = - sum_list (map (\<lambda>h. owned h r) hs))"
proof (induction hs arbitrary: st)
  case Nil
  then show ?case by (auto intro!: exI [of _ "[]"])
next
  case (Cons h hs)
  obtain e st1 where 1: "Close L h st = (e, st1)" by fastforce
  from Close_balance [OF 1] obtain es where es: "adds st st1 es" "\<forall>r. balance r es = - owned h r" by blast
  from Cons [of st1] obtain fs where fs: "adds st1 (close_hosts L hs st1) fs"
    "\<forall>r. balance r fs = - sum_list (map (\<lambda>h. owned h r) hs)" by blast
  from adds_trans [OF es(1) fs(1)] es(2) fs(2) 1 show ?case by (intro exI [of _ "es @ fs"]) simp
qed

lemma close_jumps_balance:
  "\<exists>es. adds st (close_jumps L js st) es \<and> (\<forall>r. balance r es = - of_bool (r = RJump) * int (length js))"
proof (induction L js st rule: close_jumps.induct)
  case (1 L st)
  then show ?case by (auto intro!: exI [of _ "[]"])
next
  case (2 L spec jc js st)
  obtain e st1 where 1: "close_call RJump (CloseClient L jc) st = (e, st1)" by fastforce
  from 2 1 obtain fs where fs: "adds st1 (close_jumps L js st1) fs"
    "\<forall>r. balance r fs = - of_bool (r = RJump) * int (length js)" by auto
  from adds_trans [OF adds_close [OF 1] fs(1)] fs(2) 1 show ?case
    by (intro exI [of _ "[Closed RJump] @ fs"]) (simp add: of_bool_def)
qed

lemma wrap_opened:
  assumes "open_call RClient c st = (Inr cl, st1)" and "newHostFromClient L nm cl fwd ka st1 = (x, st')"
  shows "\<exists>es. adds st st' es \<and> dial_post x es"
proof (cases x)
  case (Inl e)
  from assms(2) [unfolded Inl] obtain fs where fs: "adds st1 st' fs" "balance RAgent fs = 0"
    "balance RSession fs = 0" "balance RClient fs = 0" "balance RJump fs = 0" "Closed RClient \<notin> set fs"
    by (rule newHost_fails)
  from adds_trans [OF adds_open_Inr [OF assms(1)] fs(1)] fs(2-) Inl show ?thesis
    by (intro exI [of _ "[Opened RClient] @ fs"]) (simp add: dial_post_def)
next
  case (Inr h)
  from assms(2) [unfolded Inr] obtain fs where fs: "adds st1 st' fs"
    "\<forall>r. balance r fs = of_bool (r = RSftp) + of_bool (r = RAgent \<and> fwd)"
    "client h = cl" "name h = nm" "agentConn h = None \<longleftrightarrow> \<not> fwd" "sshHost.forwardAgent h = fwd"
    "stopKeepAlive h = (if 0 < ka then Some ka else None)" "\<not> agentFwdOnce h"
    by (rule newHost_succeeds)
  from adds_trans [OF adds_open_Inr [OF assms(1)] fs(1)] fs(2,5) Inr show ?thesis
    by (intro exI [of _ "[Opened RClient] @ fs"]) (auto simp: dial_post_def owned_def)
qed

lemma dial_post_nothing: "adds st st' [] \<Longrightarrow> \<exists>es. adds st st' es \<and> dial_post (Inl e) es"
  by (intro exI [of _ "[]"]) (simp add: dial_post_def)

lemma dialViaProxy_post:
  assumes "dialViaProxy N L nm addr c j fwd ka st = (x, st')"
  shows "\<exists>es. adds st st' es \<and> dial_post x es"
proof -
  obtain y st1 where 1: "plain_call (DialContext N j
      (if 0 < clientConfig.Timeout c then Some (clientConfig.Timeout c) else None) addr) st = (y, st1)"
    by fastforce
  show ?thesis
  proof (cases y)
    case (Inl e)
    with 1 assms adds_plain [OF 1] dial_post_nothing show ?thesis by (auto simp: dialViaProxy_def)
  next
    case (Inr conn)
    obtain z st2 where 2: "open_call RClient (NewClientConn N conn addr c) st1 = (z, st2)" by fastforce
    show ?thesis
    proof (cases z)
      case (Inl e)
      from adds_trans [OF adds_plain [OF 1] adds_open_Inl [OF 2 [unfolded Inl]]]
      show ?thesis using 1 2 Inr Inl assms dial_post_nothing by (auto simp: dialViaProxy_def)
    next
      case (Inr cl)
      with 1 2 \<open>y = Inr conn\<close> assms have "newHostFromClient L nm cl fwd ka st2 = (x, st')"
        by (simp add: dialViaProxy_def)
      from wrap_opened [OF 2 [unfolded Inr] this] obtain es where "adds st1 st' es" "dial_post x es" by blast
      with adds_trans [OF adds_plain [OF 1]] show ?thesis by fastforce
    qed
  qed
qed

lemma dialTarget_post:
  assumes "dialTarget N L a cw jump force ka st = (x, st')"
  shows "\<exists>es. adds st st' es \<and> dial_post x es"
proof (cases "ClientConfig (conf N) cw a")
  case (Inl e)
  with assms dial_post_nothing show ?thesis by (fastforce simp: dialTarget_def)
next
  case (Inr c)
  show ?thesis
  proof (cases "Ssh_Config.forwardAgent cw a")
    case (Inl e)
    with Inr assms dial_post_nothing show ?thesis by (fastforce simp: dialTarget_def)
  next
    case (Inr f)
    show ?thesis
    proof (cases jump)
      case (Some j)
      with \<open>ClientConfig _ _ _ = _\<close> Inr assms show ?thesis
        by (auto simp: dialTarget_def Let_def intro: dialViaProxy_post)
    next
      case None
      obtain z st1 where 1: "open_call RClient (SshDial N (ConnectAddr cw a) c) st = (z, st1)" by fastforce
      show ?thesis
      proof (cases z)
        case (Inl e)
        with 1 None \<open>ClientConfig _ _ _ = _\<close> Inr assms adds_open_Inl [OF 1 [unfolded Inl]] dial_post_nothing
        show ?thesis by (auto simp: dialTarget_def Let_def)
      next
        case (Inr cl)
        with 1 None \<open>ClientConfig _ _ _ = _\<close> \<open>Ssh_Config.forwardAgent cw a = Inr f\<close> assms
        have "newHostFromClient L a cl (force \<or> f) ka st1 = (x, st')" by (simp add: dialTarget_def Let_def)
        from wrap_opened [OF 1 [unfolded Inr] this] show ?thesis .
      qed
    qed
  qed
qed

definition result_post :: "('cl, 'ac, 'sftp, 'v) sshHost sshDialResult \<Rightarrow> event list \<Rightarrow> bool" where
  "result_post r es \<longleftrightarrow>
     (case host r of
        None \<Rightarrow> err r \<noteq> None \<and> (\<exists>e. dial_post (Inl e :: err + ('cl, 'ac, 'sftp, 'v) sshHost) es)
      | Some h \<Rightarrow> err r = None \<and> dial_post (Inr h) es)"

lemma dialOne_post:
  fixes r :: "('cl, 'ac, 'sftp, 'v) sshHost sshDialResult"
  assumes "dialOne N L d a st = (r, st')"
  shows "\<exists>es. adds st st' es \<and> result_post r es"
proof (cases "jumpFor d a")
  case (Inl e)
  with assms dial_post_nothing [of st st] show ?thesis by (fastforce simp: dialOne_def result_post_def)
next
  case (Inr j)
  obtain x :: "err + ('cl, 'ac, 'sftp, 'v) sshHost" and st1 where x: "dialTarget N L a (config d) j (groupConfig.forwardAgent (cfg d))
      (keepAliveInterval (cfg d)) st = (x, st1)" by fastforce
  from dialTarget_post [OF x] obtain es where "adds st st1 es" "dial_post x es" by blast
  with Inr x assms show ?thesis
    by (intro exI [of _ es]) (auto simp: dialOne_def result_post_def split: sum.splits)
qed

end
