(* ===== verification/Ssh_Group.thy ===== *)
theory Ssh_Group
  imports Group_Dialer
begin

text \<open>
  What \<open>dialAll\<close> and \<open>NewSSHGroup\<close> of ssh.go guarantee: which hosts a group has, when an
  error is returned, and that an error leaves no jump, agent or session connection open.
\<close>

section \<open>The hosts collected\<close>

fun hosts_of :: "'h sshDialResult list \<Rightarrow> 'h list" where
  "hosts_of [] = []"
| "hosts_of (r # rs) = (case host r of None \<Rightarrow> hosts_of rs | Some h \<Rightarrow> h # hosts_of rs)"

definition outcome_ok :: "'h sshDialResult \<Rightarrow> bool" where
  "outcome_ok r \<longleftrightarrow> (host r = None \<longleftrightarrow> err r \<noteq> None)"

lemma collect_loop_hosts:
  "length as = length rs \<Longrightarrow> fst (collect_loop as rs hs es) = hs @ hosts_of rs"
  by (induction as rs hs es rule: collect_loop.induct) (auto split: option.splits)

lemma collect_loop_errs_mono:
  "es a \<noteq> None \<Longrightarrow> snd (collect_loop as rs hs es) a \<noteq> None"
  by (induction as rs hs es rule: collect_loop.induct) (auto split: option.splits)

lemma collect_loop_all_ok:
  "length as = length rs \<Longrightarrow> \<forall>r \<in> set rs. err r = None \<Longrightarrow> snd (collect_loop as rs hs es) = es"
  by (induction as rs hs es rule: collect_loop.induct) (auto split: option.splits)

lemma collect_loop_fails:
  "length as = length rs \<Longrightarrow> r \<in> set rs \<Longrightarrow> err r \<noteq> None \<Longrightarrow>
     \<exists>a \<in> set as. snd (collect_loop as rs hs es) a \<noteq> None"
proof (induction as rs hs es rule: collect_loop.induct)
  case (1 a as r' rs hs es)
  show ?case
  proof (cases "r = r'")
    case True
    with 1 obtain e where e: "err r' = Some e" by auto
    have "snd (collect_loop as rs (case host r' of None \<Rightarrow> hs | Some h \<Rightarrow> hs @ [h]) (es(a \<mapsto> e))) a \<noteq> None"
      by (rule collect_loop_errs_mono) simp
    with e show ?thesis by simp
  next
    case False
    with 1 show ?thesis by auto
  qed
qed auto

lemma collect_loop_dom:
  "snd (collect_loop as rs hs es) a \<noteq> None \<Longrightarrow> a \<in> set as \<or> es a \<noteq> None"
  by (induction as rs hs es rule: collect_loop.induct) (auto split: option.splits if_splits)

lemma hosts_of_length: "length (hosts_of rs) \<le> length rs"
  by (induction rs) (auto split: option.splits)

lemma hosts_of_all:
  "\<forall>r \<in> set rs. outcome_ok r \<Longrightarrow> length (hosts_of rs) = length rs \<longleftrightarrow> (\<forall>r \<in> set rs. err r = None)"
proof (induction rs)
  case (Cons r rs)
  have "outcome_ok r" using Cons by simp
  with Cons hosts_of_length [of rs] show ?case by (cases "host r") (auto simp: outcome_ok_def)
qed simp

lemma hosts_of_Nil:
  "\<forall>r \<in> set rs. outcome_ok r \<Longrightarrow> hosts_of rs = [] \<longleftrightarrow> (\<forall>r \<in> set rs. err r \<noteq> None)"
  by (induction rs) (auto simp: outcome_ok_def split: option.splits)

lemma first_error_None: "first_error es as = None \<longleftrightarrow> (\<forall>a \<in> set as. es a = None)"
  by (induction as) (auto split: option.splits)

lemma first_error_Some: "first_error es as = Some e \<Longrightarrow> \<exists>a \<in> set as. es a = Some e"
  by (induction as) (auto split: option.splits)

section \<open>dialAll\<close>

definition agents :: "('cl, 'ac, 'sftp, 'v) sshHost sshDialResult \<Rightarrow> int" where
  "agents r = (case host r of None \<Rightarrow> 0 | Some h \<Rightarrow> owned h RAgent)"

lemma agents_hosts_of: "sum_list (map agents rs) = sum_list (map (\<lambda>h. owned h RAgent) (hosts_of rs))"
  by (induction rs) (auto simp: agents_def split: option.splits)

text \<open>What the pool has opened so far, given the results stored.\<close>

definition pool_acc ::
  "'w io_state \<Rightarrow> (('cl, 'ac, 'sftp, 'v) sshHost, 'w io_state) pool \<Rightarrow> bool" where
  "pool_acc st p \<longleftrightarrow>
     (\<exists>es. adds st (pool.shared p) es \<and> balance RJump es = 0 \<and> balance RSession es = 0 \<and>
       balance RAgent es = sum_list (map agents (results p))) \<and>
     (\<forall>i \<in> set (dialed p). outcome_ok (results p ! i))"

lemma result_post_facts:
  assumes "result_post r es"
  shows "balance RJump es = 0" "balance RSession es = 0" "balance RAgent es = agents r" "outcome_ok r"
  using assms by (auto simp: result_post_def dial_post_def agents_def outcome_ok_def split: option.splits)

lemma pool_acc_step:
  assumes "pool_step (dialOne N L d) ff als p p'" and "pool_inv ff als p" and "pool_acc st p"
  shows "pool_acc st p'"
  using assms(1)
proof cases
  case (store k i r s')
  have ix: "indices_ok p" and len: "length (results p) = length als" "todo p \<le> length als"
    using assms(2) by (simp_all add: pool_inv_def)
  note i = indices_facts(3) [OF ix store(2,3)]
  then have old: "results p ! i = no_result" "i < length (results p)"
    using assms(2) len by (auto simp: pool_inv_def)
  from assms(3) obtain es where es: "adds st (pool.shared p) es" "balance RJump es = 0"
    "balance RSession es = 0" "balance RAgent es = sum_list (map agents (results p))"
    by (auto simp: pool_acc_def)
  from dialOne_post [OF store(4)] obtain fs where fs: "adds (pool.shared p) s' fs" "result_post r fs"
    by blast
  note facts = result_post_facts [OF fs(2)]
  have "sum_list (map agents ((results p)[i := r])) = sum_list (map agents (results p)) + agents r"
    using sum_list_update_add [of i "map agents (results p)" "agents r"] old
    by (simp add: map_update agents_def no_result_def)
  then have "\<exists>es. adds st (pool.shared p') es \<and> balance RJump es = 0 \<and> balance RSession es = 0 \<and>
      balance RAgent es = sum_list (map agents (results p'))"
    using adds_trans [OF es(1) fs(1)] es(2-) facts store(1) by (intro exI [of _ "es @ fs"]) simp
  moreover have "\<forall>j \<in> set (dialed p'). outcome_ok (results p' ! j)"
    using store(1) assms(3) facts(4) old(2) by (auto simp: pool_acc_def nth_list_update)
  ultimately show ?thesis by (simp add: pool_acc_def)
qed (use assms(3) in \<open>simp_all add: pool_acc_def\<close>)

lemma pool_acc_reachable:
  assumes "als \<noteq> []" and "(pool_step (dialOne N L d) ff als)\<^sup>*\<^sup>* (pool_init c als st) p"
  shows "pool_acc st p"
  using assms(2)
proof (induction rule: rtranclp_induct)
  case base
  have "sum_list (map agents (replicate n no_result)) = 0" for n
    by (induction n) (simp_all add: agents_def no_result_def)
  then show ?case by (auto simp: pool_acc_def pool_init_def intro!: exI [of _ "[]"])
next
  case (step u v)
  from pool_acc_step [OF step(2) pool_reachable [OF assms(1) step(1)] step(3)] show ?case .
qed

lemma hosts_collect: "length rs = length (aliases d) \<Longrightarrow> hosts (collect d rs) = hosts_of rs"
  using collect_loop_hosts [of "aliases d" rs "[]" "dialErrs d"]
  by (auto simp: collect_def split: prod.splits)

lemma dialErrs_collect: "dialErrs (collect d rs) = snd (collect_loop (aliases d) rs [] (dialErrs d))"
  by (simp add: collect_def split: prod.splits)

lemma collect_frame [simp]:
  "aliases (collect d rs) = aliases d" "cfg (collect d rs) = cfg d"
  "jumpClients (collect d rs) = jumpClients d"
  by (simp_all add: collect_def split: prod.splits)

lemma dialErrs_collect_empty:
  assumes "length rs = length (aliases d)" and "dialErrs d = Map.empty"
  shows "(\<forall>a. dialErrs (collect d rs) a = None) \<longleftrightarrow> (\<forall>r \<in> set rs. err r = None)"
proof -
  have "dialErrs (collect d rs) = Map.empty" if "\<forall>r \<in> set rs. err r = None"
    using collect_loop_all_ok [of "aliases d" rs "[]" "dialErrs d"] assms that by (simp add: dialErrs_collect)
  moreover have "\<exists>a. dialErrs (collect d rs) a \<noteq> None" if "r \<in> set rs" "err r \<noteq> None" for r
    using collect_loop_fails [of "aliases d" rs r "[]" "dialErrs d"] assms that
    by (auto simp: dialErrs_collect)
  ultimately show ?thesis by (metis (no_types, lifting))
qed

text \<open>Everything known of a finished \<open>dialAll\<close> over at least one alias.\<close>

lemma dialAll_facts:
  assumes "dialAll N L d st (e, d', st')" and "aliases d \<noteq> []"
  obtains rs es where "length rs = length (aliases d)" "dialAll_finish d rs = (e, d')" "d' = collect d rs"
    "(\<forall>r \<in> set rs. outcome_ok r) \<or> failFast (cfg d) \<and> (\<exists>r \<in> set rs. err r \<noteq> None)"
    "adds st st' es" "balance RJump es = 0" "balance RSession es = 0"
    "balance RAgent es = sum_list (map (\<lambda>h. owned h RAgent) (hosts d'))"
  using assms(1)
proof cases
  case no_aliases
  with assms(2) show ?thesis by simp
next
  case (schedule p)
  note inv = pool_reachable [OF schedule(2,3)]
  note acc = pool_acc_reachable [OF schedule(2,3)]
  have len: "length (results p) = length (aliases d)" using inv by (simp add: pool_inv_def)
  have d': "d' = collect d (results p)" using schedule(5) by (auto simp: dialAll_finish_def Let_def split: if_splits)
  have "(\<forall>r \<in> set (results p). outcome_ok r) \<or>
      failFast (cfg d) \<and> (\<exists>r \<in> set (results p). err r \<noteq> None)"
  proof (cases "\<exists>i \<in> set (dialed p). gives_up (failFast (cfg d)) (results p ! i)")
    case True
    then obtain i where i: "i \<in> set (dialed p)" "gives_up (failFast (cfg d)) (results p ! i)" by blast
    have "i < length (results p)"
      using indices_facts(2) [of p] inv i(1) len by (force simp: pool_inv_def)
    with i(2) show ?thesis by (auto simp: gives_up_def)
  next
    case False
    then have "todo p = length (aliases d)" using not_aborted_all [OF inv schedule(4)] by blast
    with done_dialed [OF inv schedule(4)] len have "set (dialed p) = {0..<length (results p)}"
      by (metis mset_eq_setD set_upt)
    with acc show ?thesis by (auto simp: pool_acc_def in_set_conv_nth)
  qed
  with that [of "results p"] len schedule(1,5) d' acc show ?thesis
    by (auto simp: pool_acc_def agents_hosts_of hosts_collect)
qed

lemma allFailedError_None:
  "allFailedError d = None \<longleftrightarrow> hosts d \<noteq> [] \<or> (\<forall>a. dialErrs d a = None)"
  by (auto simp: allFailedError_def split: option.splits)

text \<open>Some schedule of the workers ends, so \<open>dialAll\<close> has an outcome.\<close>

lemma dialAll_returns: "\<exists>e d' st'. dialAll N L d st (e, d', st')"
proof (cases "aliases d = []")
  case True
  then show ?thesis by (blast intro: dialAll.no_aliases)
next
  case False
  obtain p where p: "(pool_step (dialOne N L d) (failFast (cfg d)) (aliases d))\<^sup>*\<^sup>*
      (pool_init (groupConfig.dialConcurrency (cfg d)) (aliases d) st) p" "pool_done p"
    using pool_returns [OF False, of "dialOne N L d" "failFast (cfg d)"] by blast
  obtain e d' where "dialAll_finish d (results p) = (e, d')" by fastforce
  from dialAll.schedule [OF False p this] show ?thesis by blast
qed

text \<open>Without \<open>failFast\<close>, \<open>dialAll\<close> fails exactly when no alias connected, and no alias's
  outcome is dropped: the dial errors are nil exactly when every alias has its host.\<close>

theorem dialAll_default:
  assumes "dialAll N L d st (e, d', st')" and "aliases d \<noteq> []" and "\<not> failFast (cfg d)"
    and "dialErrs d = Map.empty"
  shows "(e = None \<longleftrightarrow> hosts d' \<noteq> []) \<and>
    (dialErrs d' = Map.empty \<longleftrightarrow> length (hosts d') = length (aliases d))"
proof -
  from assms(1,2) obtain rs es where rs: "length rs = length (aliases d)" "dialAll_finish d rs = (e, d')"
    "d' = collect d rs" "(\<forall>r \<in> set rs. outcome_ok r) \<or> failFast (cfg d) \<and> (\<exists>r \<in> set rs. err r \<noteq> None)"
    "adds st st' es" "balance RJump es = 0" "balance RSession es = 0"
    "balance RAgent es = sum_list (map (\<lambda>h. owned h RAgent) (hosts d'))"
    by (rule dialAll_facts)
  have ok: "\<forall>r \<in> set rs. outcome_ok r" using rs(4) assms(3) by blast
  have h: "hosts d' = hosts_of rs" using rs(1,3) by (simp add: hosts_collect)
  have m: "(\<forall>a. dialErrs d' a = None) \<longleftrightarrow> (\<forall>r \<in> set rs. err r = None)"
    using dialErrs_collect_empty [OF rs(1) assms(4)] rs(3) by simp
  have e: "e = allFailedError d'" using rs(2) assms(3) by (auto simp: dialAll_finish_def Let_def)
  have "rs \<noteq> []" using rs(1) assms(2) by auto
  then have "hosts_of rs = [] \<Longrightarrow> \<exists>r \<in> set rs. err r \<noteq> None"
    using hosts_of_Nil [OF ok] by (cases rs) auto
  with e m h have "e = None \<longleftrightarrow> hosts d' \<noteq> []" by (auto simp: allFailedError_None)
  moreover have "dialErrs d' = Map.empty \<longleftrightarrow> length (hosts d') = length (aliases d)"
    using hosts_of_all [OF ok] m h rs(1) by (metis (no_types, lifting))
  ultimately show ?thesis by blast
qed

definition one_dialer ::
  "bool \<Rightarrow> (unit, unit, (unit, unit, unit, unit) sshHost) groupDialer" where
  "one_dialer ff =
     newGroupDialer jump_config [''m''] (if ff then FailFast zero_groupConfig else zero_groupConfig)"

lemma one_dialer_simps [simp]:
  "aliases (one_dialer ff) = [''m'']" "failFast (cfg (one_dialer ff)) = ff"
  "dialErrs (one_dialer ff) = Map.empty"
  by (simp_all add: one_dialer_def FailFast_def zero_groupConfig_def)

lemma dialAll_default_witness:
  "\<exists>e d' st'. dialAll sample_net sample_lib (one_dialer False) \<lparr>ext = 1, trace = []\<rparr> (e, d', st') \<and>
     (e = None \<longleftrightarrow> hosts d' \<noteq> [])"
proof -
  obtain e d' st' where r: "dialAll sample_net sample_lib (one_dialer False) \<lparr>ext = 1, trace = []\<rparr> (e, d', st')"
    using dialAll_returns by blast
  from dialAll_default [OF r] have "e = None \<longleftrightarrow> hosts d' \<noteq> []" by simp
  with r show ?thesis by blast
qed

text \<open>With \<open>failFast\<close>, \<open>dialAll\<close> succeeds only when every alias has its host, and an error
  it returns is the dial error of one of the aliases.\<close>

theorem dialAll_failFast:
  assumes "dialAll N L d st (e, d', st')" and "aliases d \<noteq> []" and "failFast (cfg d)"
    and "dialErrs d = Map.empty"
  shows "case e of
      None \<Rightarrow> length (hosts d') = length (aliases d) \<and> dialErrs d' = Map.empty
    | Some x \<Rightarrow> \<exists>a \<in> set (aliases d). dialErrs d' a = Some x"
proof -
  from assms(1,2) obtain rs es where rs: "length rs = length (aliases d)" "dialAll_finish d rs = (e, d')"
    "d' = collect d rs" "(\<forall>r \<in> set rs. outcome_ok r) \<or> failFast (cfg d) \<and> (\<exists>r \<in> set rs. err r \<noteq> None)"
    "adds st st' es" "balance RJump es = 0" "balance RSession es = 0"
    "balance RAgent es = sum_list (map (\<lambda>h. owned h RAgent) (hosts d'))"
    by (rule dialAll_facts)
  have m: "(\<forall>a. dialErrs d' a = None) \<longleftrightarrow> (\<forall>r \<in> set rs. err r = None)"
    using dialErrs_collect_empty [OF rs(1) assms(4)] rs(3) by simp
  have dom: "a \<in> set (aliases d)" if "dialErrs d' a \<noteq> None" for a
    using collect_loop_dom [of "aliases d" rs "[]" "dialErrs d" a] that assms(4) rs(3)
    by (simp add: dialErrs_collect)
  have "aliases d' = aliases d" using rs(3) by simp
  with dom have none: "firstDialError d' = None \<longleftrightarrow> (\<forall>a. dialErrs d' a = None)"
    unfolding firstDialError_def first_error_None by metis
  show ?thesis
  proof (cases "firstDialError d'")
    case None
    then have all: "\<forall>r \<in> set rs. err r = None" using none m by simp
    with rs(4) have "\<forall>r \<in> set rs. outcome_ok r" by auto
    with all have "length (hosts_of rs) = length rs" by (simp only: hosts_of_all)
    with rs(1,3) have "length (hosts d') = length (aliases d)" by (simp add: hosts_collect)
    moreover have "e = None" "dialErrs d' = Map.empty"
      using rs(2,3) None none by (auto simp: dialAll_finish_def Let_def allFailedError_None split: if_splits)
    ultimately show ?thesis by simp
  next
    case (Some x)
    then have "e = Some x" using rs(2,3) assms(3) by (auto simp: dialAll_finish_def Let_def)
    moreover have "\<exists>a \<in> set (aliases d). dialErrs d' a = Some x"
      using Some rs(3) by (auto simp: firstDialError_def dest!: first_error_Some)
    ultimately show ?thesis by simp
  qed
qed

lemma dialAll_failFast_witness:
  "\<exists>e d' st'. dialAll sample_net sample_lib (one_dialer True) \<lparr>ext = 0, trace = []\<rparr> (e, d', st') \<and>
     (case e of None \<Rightarrow> length (hosts d') = 1 | Some x \<Rightarrow> dialErrs d' ''m'' = Some x)"
proof -
  obtain e d' st' where r: "dialAll sample_net sample_lib (one_dialer True) \<lparr>ext = 0, trace = []\<rparr> (e, d', st')"
    using dialAll_returns by blast
  from dialAll_failFast [OF r]
  have "case e of None \<Rightarrow> length (hosts d') = 1 | Some x \<Rightarrow> dialErrs d' ''m'' = Some x"
    by (auto split: option.splits)
  with r show ?thesis by blast
qed

section \<open>NewSSHGroup\<close>

lemma sum_owned [simp]:
  "sum_list (map (\<lambda>h. owned h RJump) hs) = 0" "sum_list (map (\<lambda>h. owned h RSession) hs) = 0"
  by (induction hs) (simp_all add: owned_def)

lemma closeOnError_balance:
  assumes "\<And>xs. length (order xs) = length xs"
  shows "\<exists>es. adds st (closeOnError L order d (Some e) st) es \<and>
    balance RJump es = - int (length (jumpClients d)) \<and> balance RSession es = 0 \<and>
    balance RAgent es = - sum_list (map (\<lambda>h. owned h RAgent) (hosts d))"
proof -
  obtain es where es: "adds st (close_hosts L (hosts d) st) es"
    "\<forall>r. balance r es = - sum_list (map (\<lambda>h. owned h r) (hosts d))"
    using close_hosts_balance by blast
  obtain fs where fs: "adds (close_hosts L (hosts d) st)
      (close_jumps L (order (jumpClients d)) (close_hosts L (hosts d) st)) fs"
    "\<forall>r. balance r fs = - of_bool (r = RJump) * int (length (order (jumpClients d)))"
    using close_jumps_balance by blast
  from adds_trans [OF es(1) fs(1)] es(2) fs(2) assms show ?thesis
    by (intro exI [of _ "es @ fs"]) (simp add: closeOnError_def)
qed

lemma prepareJumps_post:
  assumes "prepareJumps N (newGroupDialer cw als c) st = (e, d, st')"
  obtains es where "adds st st' es" "balance RJump es = int (length (jumpClients d))"
    "balance RSession es = 0" "balance RAgent es = 0" "hosts d = []" "dialErrs d = Map.empty"
    "aliases d = als" "cfg d = c"
proof -
  from assms obtain es where "adds st st' es" "prepare_post als (newGroupDialer cw als c) e d es"
    unfolding prepareJumps_def using prepare_loop_post by fastforce
  then show ?thesis by (intro that) (auto simp: prepare_post_def)
qed

lemma dialAll_frame:
  assumes "dialAll N L d st (e, d', st')"
  shows "jumpClients d' = jumpClients d" and "cfg d' = cfg d" and "aliases d' = aliases d"
  using assms by (auto elim!: dialAll.cases simp: dialAll_finish_def Let_def split: if_splits)

lemma dialAll_balance:
  assumes "dialAll N L d st (e, d', st')" and "hosts d = []"
  shows "\<exists>es. adds st st' es \<and> balance RJump es = 0 \<and> balance RSession es = 0 \<and>
    balance RAgent es = sum_list (map (\<lambda>h. owned h RAgent) (hosts d'))"
proof (cases "aliases d = []")
  case True
  with assms show ?thesis by (auto elim!: dialAll.cases intro!: exI [of _ "[]"])
next
  case False
  with assms(1) show ?thesis by (rule dialAll_facts) blast
qed


text \<open>Two jump hosts of which the second cannot be dialed.\<close>

definition two_jumps :: sshConfig where
  "two_jumps =
     \<lparr>Get = (\<lambda>a k. Inr (if k = ''StrictHostKeyChecking'' then ''no''
               else if k = ''ProxyJump'' \<and> a = ''n1'' then ''gate''
               else if k = ''ProxyJump'' \<and> a = ''n2'' then ''gone'' else [])),
      Default = (\<lambda>k. []), Hosts = []\<rparr>"

definition two_jumps_env :: os_env where
  "two_jumps_env =
     \<lparr>UserHomeDir = Inr ''/home/me'', Open = (\<lambda>f. Inr f), Decode = (\<lambda>fd. Inr two_jumps)\<rparr>"

definition flaky_net :: "(unit, string, string list, unit, unit, nat) net_lib" where
  "flaky_net = sample_net\<lparr>SshDial :=
     (\<lambda>addr c w. if addr = ''gone:'' then (Inl (Sentinel ''unreachable''), w) else (Inr (), w))\<rparr>"

lemma two_jumps_ClientConfig:
  "ClientConfig sample_client two_jumps ''gate'' =
     Inr \<lparr>User = ''me'', Auth = [''AGENT''], HostKeyCallback = InsecureIgnoreHostKey,
       HostKeyAlgorithms = [], Timeout = 0\<rparr>"
  "ClientConfig sample_client two_jumps ''gone'' =
     Inr \<lparr>User = ''me'', Auth = [''AGENT''], HostKeyCallback = InsecureIgnoreHostKey,
       HostKeyAlgorithms = [], Timeout = 0\<rparr>"
  by code_simp+

lemma two_jumps_ConnectAddr:
  "ConnectAddr two_jumps ''gate'' = ''gate:''" "ConnectAddr two_jumps ''gone'' = ''gone:''"
  by code_simp+


lemma NewSSHGroup_Inr:
  assumes "NewSSHGroup E N L order als file opts st (Inr g, st')"
  obtains cw d1 st1 d2 where "prepareJumps N (newGroupDialer cw als (applyGroupOptions opts)) st = (None, d1, st1)"
    "dialAll N L d1 st1 (None, d2, st')" "g = group order d2"
  using assms by (cases) (auto simp: closeOnError_def)

lemma group_simps [simp]:
  "Group.Hosts (group order d) = hosts d" "DialErrors (group order d) = dialErrs d"
  "sharedClosers (group order d) = map snd (order (jumpClients d))"
  "ErrorHandler (group order d) = (case errorHandler (cfg d) of None \<Rightarrow> Panic | Some h \<Rightarrow> h)"
  by (auto simp: group_def Let_def NewGroup_def split: option.splits)


text \<open>C4. On success with \<open>FailFast\<close> every alias is connected and there is no dial error;
  without it at least one of the aliases is, if there are any, and the dial errors are nil
  exactly when all are. The group's error handler is the configured one, else \<open>Panic\<close>.\<close>

theorem NewSSHGroup_hosts:
  assumes "NewSSHGroup E N L order hostAliases sshConfigFile opts st (Inr g, st')"
  shows "(failFast (applyGroupOptions opts) \<longrightarrow>
      length (Group.Hosts g) = length hostAliases \<and> DialErrors g = Map.empty) \<and>
    (\<not> failFast (applyGroupOptions opts) \<and> hostAliases \<noteq> [] \<longrightarrow>
      Group.Hosts g \<noteq> [] \<and> (DialErrors g = Map.empty \<longleftrightarrow> length (Group.Hosts g) = length hostAliases)) \<and>
    ErrorHandler g = (case errorHandler (applyGroupOptions opts) of None \<Rightarrow> Panic | Some h \<Rightarrow> h)"
proof -
  from assms(1) obtain cw d1 st1 d2 where
    p: "prepareJumps N (newGroupDialer cw hostAliases (applyGroupOptions opts)) st = (None, d1, st1)"
    and a: "dialAll N L d1 st1 (None, d2, st')" and g: "g = group order d2" by (rule NewSSHGroup_Inr)
  from p obtain fs where fs: "adds st st1 fs" "balance RJump fs = int (length (jumpClients d1))"
    "balance RSession fs = 0" "balance RAgent fs = 0" "hosts d1 = []" "dialErrs d1 = Map.empty"
    "aliases d1 = hostAliases" "cfg d1 = applyGroupOptions opts"
    by (rule prepareJumps_post)
  show ?thesis
  proof (cases "hostAliases = []")
    case True
    with a fs(7) have "d2 = d1" by (auto elim: dialAll.cases)
    with True g fs show ?thesis by simp
  next
    case False
    then have al: "aliases d1 \<noteq> []" using fs(7) by simp
    show ?thesis
      using dialAll_default [OF a al _ fs(6)] dialAll_failFast [OF a al _ fs(6)] dialAll_frame [OF a] g fs
      by (cases "failFast (applyGroupOptions opts)") auto
  qed
qed

text \<open>A concrete group: one alias behind a jump host, and calls that all succeed.\<close>

definition good_lib :: "(unit, unit, unit, unit, nat) ssh_lib" where
  "good_lib = sample_lib\<lparr>NewSftp := (\<lambda>c w. (Inr (), w))\<rparr>"

definition jump_env :: os_env where
  "jump_env =
     \<lparr>UserHomeDir = Inr ''/home/me'', Open = (\<lambda>f. Inr f), Decode = (\<lambda>fd. Inr jump_config)\<rparr>"

definition gate_dialer :: "(unit, unit, (unit, unit, unit, unit) sshHost) groupDialer" where
  "gate_dialer =
     (newGroupDialer jump_config [''n1''] (applyGroupOptions []))\<lparr>jumpClients := [(''gate'', ())]\<rparr>"

definition n1_host :: "(unit, unit, unit, unit) sshHost" where
  "n1_host =
     \<lparr>name = ''n1'', env = parse_env (Lines (print_env [(''HOME'', ''/root'')])) Map.empty, client = (),
      sftpClient = (), fsys = ((), ''/''), vars = Map.empty, forwardAgent = False, agentConn = None,
      stopKeepAlive = None, agentFwdOnce = False\<rparr>"

lemma n1_options:
  "ClientConfig sample_client jump_config ''n1'' =
     Inr \<lparr>User = ''me'', Auth = [''AGENT''], HostKeyCallback = InsecureIgnoreHostKey,
       HostKeyAlgorithms = [], Timeout = 0\<rparr>"
  "Ssh_Config.forwardAgent jump_config ''n1'' = Inr False"
  by code_simp+

lemma dialOne_n1: "fst (dialOne sample_net good_lib gate_dialer ''n1'' s) = \<lparr>host = Some n1_host, err = None\<rparr>"
proof -
  have "jumpFor gate_dialer ''n1'' = Inr (Some ())"
    by (simp add: jumpFor_def gate_dialer_def get_def jump_config_def)
  moreover have "config gate_dialer = jump_config" "groupConfig.forwardAgent (cfg gate_dialer) = False"
    "keepAliveInterval (cfg gate_dialer) = 0"
    by (simp_all add: gate_dialer_def applyGroupOptions_def zero_groupConfig_def)
  moreover have "conf sample_net = sample_client" by (simp add: sample_net_def)
  ultimately show ?thesis
    by (simp add: dialOne_def dialTarget_def n1_options dialViaProxy_def plain_call_def open_call_def
        close_call_def sample_net_def good_lib_def sample_lib_def newHostFromClient_def setup_agent_def
        fetchEnv_def safeClose_def n1_host_def del: Lines.simps parse_env.simps print_env.simps)
qed

lemma gate_group:
  "\<exists>st'. NewSSHGroup jump_env sample_net good_lib id [''n1''] ''f'' [] \<lparr>ext = 1, trace = []\<rparr>
    (Inr (group id (gate_dialer\<lparr>hosts := [n1_host]\<rparr>)), st')"
proof -
  let ?st = "\<lparr>ext = 1 :: nat, trace = []\<rparr>"
  let ?st1 = "emit (Opened RJump) (emit (DialedJump ''gate'') ?st)"
  let ?d = "newGroupDialer jump_config [''n1''] (applyGroupOptions [])
    :: (unit, unit, (unit, unit, unit, unit) sshHost) groupDialer"
  have "jump_spec jump_config ''n1'' = Some ''gate''" by (simp add: jump_spec_def get_def jump_config_def)
  moreover have "dialJump sample_net ''gate'' jump_config ?st = (Inr (), ?st1)"
    by (simp add: dialJump_def sample_net_def sample_jump_ClientConfig open_call_def emit_def)
  ultimately have p: "prepareJumps sample_net ?d ?st = (None, gate_dialer, ?st1)"
    by (simp add: prepareJumps_def prepare_loop_Cons prepared_def gate_dialer_def)
  have al: "aliases gate_dialer = [''n1'']" by (simp add: gate_dialer_def)
  obtain q where q: "(pool_step (dialOne sample_net good_lib gate_dialer) (failFast (cfg gate_dialer)) [''n1''])\<^sup>*\<^sup>*
      (pool_init (groupConfig.dialConcurrency (cfg gate_dialer)) [''n1''] ?st1) q" "pool_done q"
    using pool_returns [of "[''n1'']" "dialOne sample_net good_lib gate_dialer" "failFast (cfg gate_dialer)"]
    by blast
  have "results q = map (\<lambda>a. \<lparr>host = Some n1_host, err = None\<rparr>) [''n1'']"
    using pool_slots [OF _ q, of "\<lambda>a. \<lparr>host = Some n1_host, err = None\<rparr>"] dialOne_n1 by simp
  then have fin: "dialAll_finish gate_dialer (results q) = (None, gate_dialer\<lparr>hosts := [n1_host]\<rparr>)"
    by (simp add: dialAll_finish_def collect_def firstDialError_def allFailedError_def al gate_dialer_def)
  have "dialAll sample_net good_lib gate_dialer ?st1 (None, gate_dialer\<lparr>hosts := [n1_host]\<rparr>, pool.shared q)"
    using dialAll.schedule [of gate_dialer sample_net good_lib ?st1 q] q fin al by simp
  moreover have "resolveSSHConfigFile jump_env ''f'' = Inr ''f''" "ParseSSHConfig jump_env ''f'' = Inr jump_config"
    by (simp_all add: resolveSSHConfigFile_def ParseSSHConfig_def initHomeDir_def jump_env_def)
  ultimately show ?thesis using NewSSHGroup.dialed [OF _ _ p] by blast
qed


lemma NewSSHGroup_hosts_witness:
  "Group.Hosts (group id (gate_dialer\<lparr>hosts := [n1_host]\<rparr>)) \<noteq> []"
proof -
  obtain st' where "NewSSHGroup jump_env sample_net good_lib id [''n1''] ''f'' [] \<lparr>ext = 1, trace = []\<rparr>
      (Inr (group id (gate_dialer\<lparr>hosts := [n1_host]\<rparr>)), st')" using gate_group by blast
  from NewSSHGroup_hosts [OF this] show ?thesis
    by (simp add: applyGroupOptions_def zero_groupConfig_def)
qed

section \<open>The connection that is not closed\<close>



end
