(* ===== verification/Group_Close.thy ===== *)
theory Group_Close
  imports Go_Error "HOL-Library.Multiset"
begin

text \<open>
  iago.go, \<open>Group.Close\<close>: one goroutine per host closes it and stores the result in its
  slot of \<open>errs\<close>; after \<open>wg.Wait\<close> the slots are joined, and the shared resources (the
  jump connections) are closed one after the other, each result joined onto the error so
  far. Closing a host or a shared resource is a function of the state of the world.

  The log is a ghost field: it records the order in which things were closed.
\<close>

datatype close_event = HostClosed nat | SharedClosed nat

record 'w close_state =
  slots :: "error option list"
  world :: 'w
  joined :: "error option"
  next_shared :: nat
  log :: "close_event list"

definition Close_init :: "'h list \<Rightarrow> 'w \<Rightarrow> 'w close_state" where
  "Close_init hosts w =
     \<lparr>slots = replicate (length hosts) None, world = w, joined = None, next_shared = 0, log = []\<rparr>"

inductive Close_step ::
  "('h \<Rightarrow> 'w \<Rightarrow> error \<times> 'w) \<Rightarrow> ('k \<Rightarrow> 'w \<Rightarrow> error \<times> 'w) \<Rightarrow> 'h list \<Rightarrow> 'k list
     \<Rightarrow> 'w close_state \<Rightarrow> 'w close_state \<Rightarrow> bool"
  for hclose sclose hosts sharedClosers where
  close_host: "i < length (slots st) \<Longrightarrow> slots st ! i = None \<Longrightarrow>
    hclose (hosts ! i) (world st) = (e, w') \<Longrightarrow>
    Close_step hclose sclose hosts sharedClosers st
      (st\<lparr>slots := (slots st)[i := Some e], world := w', log := log st @ [HostClosed i]\<rparr>)"
| wait: "joined st = None \<Longrightarrow> None \<notin> set (slots st) \<Longrightarrow>
    Close_step hclose sclose hosts sharedClosers st
      (st\<lparr>joined := Some (errors_Join (map the (slots st)))\<rparr>)"
| close_shared: "joined st = Some e \<Longrightarrow> next_shared st < length sharedClosers \<Longrightarrow>
    sclose (sharedClosers ! next_shared st) (world st) = (e', w') \<Longrightarrow>
    Close_step hclose sclose hosts sharedClosers st
      (st\<lparr>joined := Some (errors_Join [e, e']), world := w', next_shared := Suc (next_shared st),
          log := log st @ [SharedClosed (next_shared st)]\<rparr>)"
definition Close_done :: "'k list \<Rightarrow> 'w close_state \<Rightarrow> bool" where
  "Close_done sharedClosers st \<longleftrightarrow> joined st \<noteq> None \<and> next_shared st = length sharedClosers"

section \<open>The order of closing\<close>

definition ordered_log :: "nat \<Rightarrow> 'w close_state \<Rightarrow> bool" where
  "ordered_log n st \<longleftrightarrow>
     (\<exists>p. log st = map HostClosed p @ map SharedClosed [0..<next_shared st] \<and> distinct p \<and>
       set p = {i. i < n \<and> slots st ! i \<noteq> None})"

definition Close_inv :: "'h list \<Rightarrow> 'k list \<Rightarrow> 'w close_state \<Rightarrow> bool" where
  "Close_inv hosts sharedClosers st \<longleftrightarrow>
     length (slots st) = length hosts \<and> next_shared st \<le> length sharedClosers \<and>
     (joined st = None \<longrightarrow> next_shared st = 0) \<and> (joined st \<noteq> None \<longrightarrow> None \<notin> set (slots st)) \<and>
     ordered_log (length hosts) st"

definition Close_weight :: "'k list \<Rightarrow> 'w close_state \<Rightarrow> nat" where
  "Close_weight sharedClosers st =
     length (filter (\<lambda>e. e = None) (slots st)) + (if joined st = None then 1 else 0) +
     (length sharedClosers - next_shared st)"

lemma Close_inv_init [inv_intros]: "Close_inv hosts sharedClosers (Close_init hosts w)"
  by (auto simp: Close_inv_def Close_init_def ordered_log_def)

lemma Close_step_inv:
  assumes "Close_step hclose sclose hosts sharedClosers st st'" and "Close_inv hosts sharedClosers st"
  shows "Close_inv hosts sharedClosers st'"
  using assms(1)
proof cases
  case (close_host i e w')
  have open_: "joined st = None" "next_shared st = 0"
    using close_host(2,3) assms(2) nth_mem [of i "slots st"] by (force simp: Close_inv_def)+
  from assms(2) open_ obtain p where p: "log st = map HostClosed p" "distinct p"
      "set p = {i. i < length hosts \<and> slots st ! i \<noteq> None}"
    by (auto simp: Close_inv_def ordered_log_def)
  have "distinct (p @ [i])" using p close_host(3) by simp
  moreover have "set (p @ [i]) = {j. j < length hosts \<and> (slots st)[i := Some e] ! j \<noteq> None}"
    using p close_host(2) assms(2) by (auto simp: nth_list_update Close_inv_def)
  ultimately have "ordered_log (length hosts) st'"
    unfolding ordered_log_def using p open_ close_host(1) by (intro exI [of _ "p @ [i]"]) simp
  with assms(2) open_ close_host show ?thesis by (simp add: Close_inv_def)
next
  case wait
  with assms(2) show ?thesis by (auto simp: Close_inv_def ordered_log_def)
next
  case (close_shared e e' w')
  with assms(2) show ?thesis by (auto simp: Close_inv_def ordered_log_def)
qed

lemma Close_step_weight:
  assumes "Close_step hclose sclose hosts sharedClosers st st'"
  shows "Close_weight sharedClosers st' < Close_weight sharedClosers st"
  using assms
proof cases
  case (close_host i e w')
  then show ?thesis using filter_update_length [of i "slots st" "\<lambda>e. e = None" "Some e"]
    by (simp add: Close_weight_def)
qed (auto simp: Close_weight_def)

lemma Close_progress:
  assumes "Close_inv hosts sharedClosers st" and "\<not> Close_done sharedClosers st"
  shows "\<exists>st'. Close_step hclose sclose hosts sharedClosers st st'"
proof (cases "joined st")
  case None
  show ?thesis
  proof (cases "None \<in> set (slots st)")
    case True
    then obtain i where "i < length (slots st)" "slots st ! i = None" by (auto simp: in_set_conv_nth)
    moreover obtain e w' where "hclose (hosts ! i) (world st) = (e, w')" by fastforce
    ultimately show ?thesis by (blast intro: Close_step.close_host)
  next
    case False
    with None show ?thesis by (blast intro: Close_step.wait)
  qed
next
  case (Some e)
  with assms have "next_shared st < length sharedClosers" by (auto simp: Close_inv_def Close_done_def)
  moreover obtain e' w' where "sclose (sharedClosers ! next_shared st) (world st) = (e', w')" by fastforce
  ultimately show ?thesis using Some by (blast intro: Close_step.close_shared)
qed

interpretation closing: live_system "Close_step hclose sclose hosts sharedClosers"
    "Close_inv hosts sharedClosers" "Close_weight sharedClosers" "Close_done sharedClosers"
  for hclose sclose hosts sharedClosers
  by unfold_locales (auto intro: Close_step_inv Close_step_weight Close_progress)

lemma Close_returns:
  "\<exists>st. (Close_step hclose sclose hosts sharedClosers)\<^sup>*\<^sup>* (Close_init hosts w) st \<and>
    Close_done sharedClosers st"
  by (rule closing.reaches_final [OF Close_inv_init])



section \<open>The error of Close\<close>

definition Close_error :: "('h \<Rightarrow> error) \<Rightarrow> ('k \<Rightarrow> error) \<Rightarrow> 'h list \<Rightarrow> 'k list \<Rightarrow> error" where
  "Close_error hres sres hosts sharedClosers =
     foldl (\<lambda>e c. errors_Join [e, sres c]) (errors_Join (map hres hosts)) sharedClosers"

lemma Close_error_snoc:
  "Close_error hres sres hosts (cs @ [c]) = errors_Join [Close_error hres sres hosts cs, sres c]"
  by (simp add: Close_error_def)

lemma Close_error_None_iff:
  "Close_error hres sres hosts cs = None \<longleftrightarrow>
     (\<forall>h \<in> set hosts. hres h = None) \<and> (\<forall>c \<in> set cs. sres c = None)"
proof (induction cs rule: rev_induct)
  case Nil
  then show ?case by (auto simp: Close_error_def errors_Join_None_iff)
next
  case (snoc c cs)
  then show ?case by (auto simp: Close_error_snoc errors_Join_None_iff)
qed

definition results_ok :: "('h \<Rightarrow> error) \<Rightarrow> ('k \<Rightarrow> error) \<Rightarrow> 'h list \<Rightarrow> 'k list \<Rightarrow> 'w close_state \<Rightarrow> bool" where
  "results_ok hres sres hosts cs st \<longleftrightarrow>
     (\<forall>i < length hosts. \<forall>e. slots st ! i = Some e \<longrightarrow> e = hres (hosts ! i)) \<and>
     (\<forall>e. joined st = Some e \<longrightarrow> e = Close_error hres sres hosts (take (next_shared st) cs))"

lemma results_ok_step:
  assumes "Close_step hclose sclose hosts cs st st'" and "Close_inv hosts cs st"
    and "results_ok hres sres hosts cs st"
    and "\<And>h w. h \<in> set hosts \<Longrightarrow> fst (hclose h w) = hres h"
    and "\<And>c w. c \<in> set cs \<Longrightarrow> fst (sclose c w) = sres c"
  shows "results_ok hres sres hosts cs st'"
  using assms(1)
proof cases
  case (close_host i e w')
  have "hosts ! i \<in> set hosts" using close_host(2) assms(2) by (simp add: Close_inv_def)
  then have "e = hres (hosts ! i)" using assms(4) close_host(4) by (metis fst_conv)
  with assms(2,3) close_host show ?thesis by (simp add: results_ok_def nth_list_update Close_inv_def)
next
  case wait
  have "map the (slots st) = map hres hosts"
  proof (rule nth_equalityI)
    show "length (map the (slots st)) = length (map hres hosts)" using assms(2) by (simp add: Close_inv_def)
    fix i assume i: "i < length (map the (slots st))"
    then obtain e where "slots st ! i = Some e" using wait(3) nth_Some [of "slots st" i] by auto
    with i assms(2,3) show "map the (slots st) ! i = map hres hosts ! i"
      by (auto simp: results_ok_def Close_inv_def)
  qed
  with assms(2,3) wait show ?thesis by (simp add: results_ok_def Close_inv_def Close_error_def)
next
  case (close_shared e e' w')
  have "sharedClosers \<in> set cs" if "sharedClosers = cs ! next_shared st" for sharedClosers
    using that close_shared(3) by simp
  then have "e' = sres (cs ! next_shared st)" using assms(5) close_shared(4) by (metis fst_conv)
  with assms(3) close_shared show ?thesis
    by (simp add: results_ok_def take_Suc_conv_app_nth Close_error_snoc)
qed

text \<open>The error \<open>Close\<close> returns does not depend on the interleaving: it joins the results
  of all hosts in the order of the group and then those of the shared resources, and it is
  nil exactly when nothing failed to close.\<close>

theorem Close_result:
  assumes "(Close_step hclose sclose hosts sharedClosers)\<^sup>*\<^sup>* (Close_init hosts w) st"
    and "Close_done sharedClosers st"
    and "\<And>h w. h \<in> set hosts \<Longrightarrow> fst (hclose h w) = hres h"
    and "\<And>c w. c \<in> set sharedClosers \<Longrightarrow> fst (sclose c w) = sres c"
  shows "joined st = Some (Close_error hres sres hosts sharedClosers) \<and>
    (Close_error hres sres hosts sharedClosers = None \<longleftrightarrow>
      (\<forall>h \<in> set hosts. hres h = None) \<and> (\<forall>c \<in> set sharedClosers. sres c = None))"
proof -
  from assms(1) have "results_ok hres sres hosts sharedClosers st"
  proof (induction rule: rtranclp_induct)
    case base
    show ?case by (simp add: results_ok_def Close_init_def)
  next
    case (step u v)
    have "Close_inv hosts sharedClosers u" by (rule closing.inv_steps [OF step(1) Close_inv_init])
    from results_ok_step [OF step(2) this step(3) assms(3,4)] show ?case .
  qed
  with assms(2) show ?thesis by (auto simp: results_ok_def Close_done_def Close_error_None_iff)
qed

lemma Close_result_witness:
  "\<exists>st :: unit close_state. joined st = Some (Some (Joined [Joined [Sentinel ''b'']]))"
proof -
  let ?r = "\<lambda>h. if h = ''b'' then Some (Sentinel ''b'') else None"
  let ?c = "\<lambda>h (w :: unit). (?r h, w)"
  obtain st where st: "(Close_step ?c ?c [''a'', ''b''] [''j''])\<^sup>*\<^sup>* (Close_init [''a'', ''b''] ()) st"
      "Close_done [''j''] st"
    using Close_returns [of ?c ?c "[''a'', ''b'']" "[''j'']" "()"] by blast
  from Close_result [OF st, of ?r ?r]
  have "joined st = Some (Close_error ?r ?r [''a'', ''b''] [''j''])" by simp
  then show ?thesis by (auto simp: Close_error_def errors_Join_def)
qed

end
