(* ===== verification/Group_Lifecycle.thy ===== *)
theory Group_Lifecycle
  imports Ssh_Group Group_Close
begin

text \<open>
  The life of a group: \<open>NewSSHGroup\<close> (ssh.go) followed by \<open>Group.Close\<close> (iago.go) on the
  group it returned. Closing a host is \<open>sshHost.Close\<close> and closing a shared resource closes
  the jump client; both run on the state in which the connections were opened.
\<close>

definition group_close_step ::
  "('cl, 'ac, 'sftp, 'sess, 'w) ssh_lib \<Rightarrow> (('cl, 'ac, 'sftp, 'v) sshHost, 'c, 'cl) Group
     \<Rightarrow> 'w io_state close_state \<Rightarrow> 'w io_state close_state \<Rightarrow> bool" where
  "group_close_step L g =
     Close_step (Close L) (\<lambda>cl. close_call RJump (CloseClient L cl)) (Group.Hosts g) (sharedClosers g)"

definition group_close_init ::
  "(('cl, 'ac, 'sftp, 'v) sshHost, 'c, 'cl) Group \<Rightarrow> 'w io_state \<Rightarrow> 'w io_state close_state" where
  "group_close_init g st = Close_init (Group.Hosts g) st"

section \<open>What closing a group adds to the trace\<close>

text \<open>What the hosts closed so far owned, with one jump client per shared resource closed.\<close>

definition released :: "('cl, 'ac, 'sftp, 'v) sshHost list \<Rightarrow> error option list \<Rightarrow> resource \<Rightarrow> int" where
  "released hs sl r =
     sum_list (map (\<lambda>(h, s). if s = None then 0 else owned h r) (zip hs sl))"

lemma released_init: "released hs (replicate (length hs) None) r = 0"
  by (induction hs) (simp_all add: released_def)

lemma released_update:
  assumes "length sl = length hs" and "i < length hs" and "sl ! i = None"
  shows "released hs (sl[i := Some e]) r = released hs sl r + owned (hs ! i) r"
  using assms
proof (induction hs arbitrary: sl i)
  case (Cons h hs)
  obtain s sl' where "sl = s # sl'" using Cons.prems(1) by (cases sl) auto
  with Cons show ?case by (cases i) (simp_all add: released_def)
qed simp

lemma released_all:
  assumes "length sl = length hs" and "None \<notin> set sl"
  shows "released hs sl r = sum_list (map (\<lambda>h. owned h r) hs)"
  using assms
proof (induction hs arbitrary: sl)
  case (Cons h hs)
  obtain s sl' where "sl = s # sl'" using Cons.prems(1) by (cases sl) auto
  with Cons show ?case by (auto simp: released_def)
qed (simp add: released_def)

definition close_acc ::
  "'w io_state \<Rightarrow> ('cl, 'ac, 'sftp, 'v) sshHost list \<Rightarrow> 'w io_state close_state \<Rightarrow> bool" where
  "close_acc st hs c \<longleftrightarrow>
     (\<exists>es. adds st (world c) es \<and>
       (\<forall>r. balance r es = - released hs (slots c) r - of_bool (r = RJump) * int (next_shared c)))"

lemma close_acc_step:
  assumes "group_close_step L g c c'" and "Close_inv (Group.Hosts g) (sharedClosers g) c"
    and "close_acc st (Group.Hosts g) c"
  shows "close_acc st (Group.Hosts g) c'"
proof -
  from assms(3) obtain es where es: "adds st (world c) es"
    "\<forall>r. balance r es = - released (Group.Hosts g) (slots c) r - of_bool (r = RJump) * int (next_shared c)"
    by (auto simp: close_acc_def)
  have len: "length (slots c) = length (Group.Hosts g)" using assms(2) by (simp add: Close_inv_def)
  from assms(1) [unfolded group_close_step_def] show ?thesis
  proof cases
    case (close_host i e w')
    from Close_balance [OF close_host(4)] obtain fs where fs: "adds (world c) w' fs"
      "\<forall>r. balance r fs = - owned (Group.Hosts g ! i) r" by blast
    have "released (Group.Hosts g) (slots c') r =
        released (Group.Hosts g) (slots c) r + owned (Group.Hosts g ! i) r" for r
      using released_update [OF len _ close_host(3)] close_host(1,2) len by simp
    with adds_trans [OF es(1) fs(1)] es(2) fs(2) close_host(1) show ?thesis
      unfolding close_acc_def by (intro exI [of _ "es @ fs"]) simp
  next
    case wait
    with assms(3) show ?thesis by (simp add: close_acc_def)
  next
    case (close_shared e e' w')
    from adds_trans [OF es(1) adds_close [OF close_shared(4)]] es(2) close_shared(1) show ?thesis
      unfolding close_acc_def by (intro exI [of _ "es @ [Closed RJump]"]) (simp add: algebra_simps)
  qed
qed

lemma group_close_balance:
  assumes "(group_close_step L g)\<^sup>*\<^sup>* (group_close_init g st) c" and "Close_done (sharedClosers g) c"
  shows "\<exists>es. adds st (world c) es \<and>
    (\<forall>r. balance r es = - sum_list (map (\<lambda>h. owned h r) (Group.Hosts g)) -
      of_bool (r = RJump) * int (length (sharedClosers g)))"
proof -
  have "Close_inv (Group.Hosts g) (sharedClosers g) c \<and> close_acc st (Group.Hosts g) c"
    using assms(1)
  proof (induction rule: rtranclp_induct)
    case base
    show ?case
      by (auto simp: group_close_init_def close_acc_def Close_init_def released_init
          intro!: exI [of _ "[]"] Close_inv_init [unfolded Close_init_def])
  next
    case (step u v)
    then show ?case
      using close_acc_step [OF step(2)] Close_step_inv step(2) [unfolded group_close_step_def] by blast
  qed
  moreover have "next_shared c = length (sharedClosers g)" "None \<notin> set (slots c)"
    using assms(2) calculation by (auto simp: Close_done_def Close_inv_def)
  ultimately show ?thesis by (auto simp: close_acc_def Close_inv_def released_all)
qed

section \<open>What dialing without failures opens\<close>

definition opened :: "('cl, 'ac, 'sftp, 'v) sshHost sshDialResult \<Rightarrow> resource \<Rightarrow> int" where
  "opened x r = (case host x of None \<Rightarrow> 0 | Some h \<Rightarrow> owned h r)"

lemma opened_hosts_of: "sum_list (map (\<lambda>x. opened x r) rs) = sum_list (map (\<lambda>h. owned h r) (hosts_of rs))"
  by (induction rs) (auto simp: opened_def split: option.splits)

definition pool_clean ::
  "'w io_state \<Rightarrow> (('cl, 'ac, 'sftp, 'v) sshHost, 'w io_state) pool \<Rightarrow> bool" where
  "pool_clean st p \<longleftrightarrow>
     (\<exists>es. adds st (pool.shared p) es \<and>
       ((\<forall>x \<in> set (results p). err x = None) \<longrightarrow>
         (\<forall>r. balance r es = sum_list (map (\<lambda>x. opened x r) (results p)))))"

lemma result_post_clean: "result_post x es \<Longrightarrow> err x = None \<Longrightarrow> balance r es = opened x r"
  by (auto simp: result_post_def dial_post_def opened_def split: option.splits)

lemma pool_clean_step:
  assumes "pool_step (dialOne N L d) ff als p p'" and "pool_inv ff als p" and "pool_clean st p"
  shows "pool_clean st p'"
  using assms(1)
proof cases
  case (store k i x s')
  have ix: "indices_ok p" and len: "length (results p) = length als" "todo p \<le> length als"
    using assms(2) by (simp_all add: pool_inv_def)
  note i = indices_facts(3) [OF ix store(2,3)]
  then have old: "results p ! i = no_result" "i < length (results p)"
    using assms(2) len by (auto simp: pool_inv_def)
  from assms(3) obtain es where es: "adds st (pool.shared p) es"
    "(\<forall>x \<in> set (results p). err x = None) \<longrightarrow>
      (\<forall>r. balance r es = sum_list (map (\<lambda>x. opened x r) (results p)))"
    by (auto simp: pool_clean_def)
  from dialOne_post [OF store(4)] obtain fs where fs: "adds (pool.shared p) s' fs" "result_post x fs"
    by blast
  have "balance r (es @ fs) = sum_list (map (\<lambda>x. opened x r) (results p'))"
    if clean: "\<forall>y \<in> set (results p'). err y = None" for r
  proof -
    have res: "results p' = (results p)[i := x]" using store(1) by simp
    then have x: "err x = None" using clean old(2) set_update_memI by fastforce
    have "err y = None" if y: "y \<in> set (results p)" for y
    proof -
      obtain j where j: "j < length (results p)" "y = results p ! j" using y by (auto simp: in_set_conv_nth)
      show ?thesis
      proof (cases "j = i")
        case True
        with j old(1) show ?thesis by (simp add: no_result_def)
      next
        case False
        then have y: "results p' ! j = y" using j res by simp
        have "results p' ! j \<in> set (results p')" using j(1) res by simp
        with clean have "err (results p' ! j) = None" by simp
        with y show ?thesis by simp
      qed
    qed
    then have "balance r es = sum_list (map (\<lambda>x. opened x r) (results p))" using es(2) by blast
    moreover have "sum_list (map (\<lambda>x. opened x r) (results p')) =
        sum_list (map (\<lambda>x. opened x r) (results p)) + opened x r"
      using sum_list_update_add [of i "map (\<lambda>x. opened x r) (results p)" "opened x r"] old res
      by (simp add: map_update opened_def no_result_def)
    ultimately show ?thesis using result_post_clean [OF fs(2) x] by simp
  qed
  with adds_trans [OF es(1) fs(1)] store(1) show ?thesis
    unfolding pool_clean_def by (intro exI [of _ "es @ fs"]) auto
qed (use assms(3) in \<open>simp_all add: pool_clean_def\<close>)

lemma pool_clean_reachable:
  assumes "als \<noteq> []" and "(pool_step (dialOne N L d) ff als)\<^sup>*\<^sup>* (pool_init c als st) p"
  shows "pool_clean st p"
  using assms(2)
proof (induction rule: rtranclp_induct)
  case base
  have "sum_list (map (\<lambda>x. opened x r) (replicate n no_result)) = 0" for n r
    by (induction n) (simp_all add: opened_def no_result_def)
  then show ?case by (auto simp: pool_clean_def pool_init_def intro!: exI [of _ "[]"])
next
  case (step u v)
  from pool_clean_step [OF step(2) pool_reachable [OF assms(1) step(1)] step(3)] show ?case .
qed

lemma dialAll_clean:
  assumes "dialAll N L d st (e, d', st')" and "hosts d = []" and "dialErrs d = Map.empty"
    and "dialErrs d' = Map.empty"
  shows "\<exists>es. adds st st' es \<and> (\<forall>r. balance r es = sum_list (map (\<lambda>h. owned h r) (hosts d')))"
  using assms(1)
proof cases
  case no_aliases
  with assms(2) show ?thesis by (auto intro!: exI [of _ "[]"])
next
  case (schedule p)
  have len: "length (results p) = length (aliases d)"
    using pool_reachable [OF schedule(2,3)] by (simp add: pool_inv_def)
  have d': "d' = collect d (results p)"
    using schedule(5) by (auto simp: dialAll_finish_def Let_def split: if_splits)
  have "\<forall>x \<in> set (results p). err x = None"
    using dialErrs_collect_empty [OF len assms(3)] assms(4) d' by simp
  with pool_clean_reachable [OF schedule(2,3)] show ?thesis
    by (auto simp: pool_clean_def opened_hosts_of d' hosts_collect len schedule(1))
qed

section \<open>Properties\<close>


lemma group_close_returns:
  "\<exists>c. (group_close_step L g)\<^sup>*\<^sup>* (group_close_init g st) c \<and> Close_done (sharedClosers g) c"
  unfolding group_close_step_def group_close_init_def by (rule Close_returns)


end
