(* ===== verification/Sftp_Fs.thy ===== *)
theory Sftp_Fs
  imports Go_Error "HOL-Library.Word"
begin

unbundle bit_operations_syntax

text \<open>
  sftpfs/sftpfs.go: the file system over an sftp client. The client of
  github.com/pkg/sftp is the record \<open>sftp_client\<close> of the calls the code makes, on the
  opaque state \<open>'w\<close> of the server; \<open>ValidPath\<close> is that of github.com/relab/wrfs.
\<close>

type_synonym FileMode = "32 word"

record fileInfo =
  Name :: string
  Size :: int
  Mode :: FileMode
  IsDir :: bool

record ('f, 'w) sftp_client =
  COpen :: "string \<Rightarrow> 'w \<Rightarrow> (err + 'f) \<times> 'w"
  CStat :: "string \<Rightarrow> 'w \<Rightarrow> (err + fileInfo) \<times> 'w"
  CReadDir :: "string \<Rightarrow> 'w \<Rightarrow> (err + fileInfo list) \<times> 'w"
  CMkdir :: "string \<Rightarrow> 'w \<Rightarrow> error \<times> 'w"
  COpenFile :: "string \<Rightarrow> int \<Rightarrow> 'w \<Rightarrow> (err + 'f) \<times> 'w"
  CChmod :: "string \<Rightarrow> FileMode \<Rightarrow> 'w \<Rightarrow> error \<times> 'w"
  CChown :: "string \<Rightarrow> int \<Rightarrow> int \<Rightarrow> 'w \<Rightarrow> error \<times> 'w"
  CChtimes :: "string \<Rightarrow> int \<Rightarrow> int \<Rightarrow> 'w \<Rightarrow> error \<times> 'w"
  CRemove :: "string \<Rightarrow> 'w \<Rightarrow> error \<times> 'w"
  CRename :: "string \<Rightarrow> string \<Rightarrow> 'w \<Rightarrow> error \<times> 'w"
  CSymlink :: "string \<Rightarrow> string \<Rightarrow> 'w \<Rightarrow> error \<times> 'w"
  CTruncate :: "string \<Rightarrow> int \<Rightarrow> 'w \<Rightarrow> error \<times> 'w"
  FileChmod :: "'f \<Rightarrow> FileMode \<Rightarrow> 'w \<Rightarrow> error \<times> 'w"
  FileClose :: "'f \<Rightarrow> 'w \<Rightarrow> error \<times> 'w"
  ValidPath :: "string \<Rightarrow> bool"

record ('f, 'w) sftpFS =
  client :: "('f, 'w) sftp_client"
  prefix :: string

definition New :: "('f, 'w) sftp_client \<Rightarrow> string \<Rightarrow> ('f, 'w) sftpFS" where
  "New c rootDir = \<lparr>client = c, prefix = rootDir\<rparr>"

section \<open>Directory entries\<close>

record sftpDirEntry =
  fi :: fileInfo

definition entry_Name :: "sftpDirEntry \<Rightarrow> string" where
  "entry_Name e = Name (fi e)"

definition entry_IsDir :: "sftpDirEntry \<Rightarrow> bool" where
  "entry_IsDir e = IsDir (fi e)"

definition entry_Type :: "sftpDirEntry \<Rightarrow> FileMode" where
  "entry_Type e = Mode (fi e)"

definition entry_Info :: "sftpDirEntry \<Rightarrow> err + fileInfo" where
  "entry_Info e = Inr (fi e)"

section \<open>Operations\<close>

definition fullName :: "('f, 'w) sftpFS \<Rightarrow> string \<Rightarrow> string \<Rightarrow> err + string" where
  "fullName wrapper op name =
     (if \<not> ValidPath (client wrapper) name then Inl (PathError op name (Sentinel ErrInvalid))
      else Inr (prefix wrapper @ ''/'' @ name))"

definition Open :: "('f, 'w) sftpFS \<Rightarrow> string \<Rightarrow> 'w \<Rightarrow> (err + 'f) \<times> 'w" where
  "Open wrapper name w =
     (case fullName wrapper ''open'' name of
        Inl e \<Rightarrow> (Inl e, w)
      | Inr full \<Rightarrow>
          (case COpen (client wrapper) full w of
             (Inl e, w1) \<Rightarrow> (Inl (PathError ''open'' name e), w1)
           | (Inr file, w1) \<Rightarrow> (Inr file, w1)))"

definition Stat :: "('f, 'w) sftpFS \<Rightarrow> string \<Rightarrow> 'w \<Rightarrow> (err + fileInfo) \<times> 'w" where
  "Stat wrapper name w =
     (case fullName wrapper ''stat'' name of
        Inl e \<Rightarrow> (Inl e, w)
      | Inr full \<Rightarrow>
          (case CStat (client wrapper) full w of
             (Inl e, w1) \<Rightarrow> (Inl (PathError ''stat'' name e), w1)
           | (Inr info, w1) \<Rightarrow> (Inr info, w1)))"

definition ReadDir :: "('f, 'w) sftpFS \<Rightarrow> string \<Rightarrow> 'w \<Rightarrow> (err + sftpDirEntry list) \<times> 'w" where
  "ReadDir wrapper name w =
     (case fullName wrapper ''readdir'' name of
        Inl e \<Rightarrow> (Inl e, w)
      | Inr full \<Rightarrow>
          (case CReadDir (client wrapper) full w of
             (Inl e, w1) \<Rightarrow> (Inl (PathError ''readdir'' name e), w1)
           | (Inr files, w1) \<Rightarrow> (Inr (map (\<lambda>f. \<lparr>fi = f\<rparr>) files), w1)))"

text \<open>The calls that return an error only: the error of the client is wrapped with the name.\<close>

definition path_call ::
  "('f, 'w) sftpFS \<Rightarrow> string \<Rightarrow> string \<Rightarrow> (string \<Rightarrow> 'w \<Rightarrow> error \<times> 'w) \<Rightarrow> 'w \<Rightarrow> error \<times> 'w" where
  "path_call wrapper op name call w =
     (case fullName wrapper op name of
        Inl e \<Rightarrow> (Some e, w)
      | Inr full \<Rightarrow>
          (case call full w of
             (Some e, w1) \<Rightarrow> (Some (PathError op name e), w1)
           | (None, w1) \<Rightarrow> (None, w1)))"

definition Mkdir :: "('f, 'w) sftpFS \<Rightarrow> string \<Rightarrow> FileMode \<Rightarrow> 'w \<Rightarrow> error \<times> 'w" where
  "Mkdir wrapper name perm w =
     (case fullName wrapper ''mkdir'' name of
        Inl e \<Rightarrow> (Some e, w)
      | Inr full \<Rightarrow>
          (case CMkdir (client wrapper) full w of
             (Some e, w1) \<Rightarrow> (Some (PathError ''mkdir'' name e), w1)
           | (None, w1) \<Rightarrow>
               (case CChmod (client wrapper) name perm w1 of
                  (Some e, w2) \<Rightarrow> (Some (PathError ''mkdir'' name e), w2)
                | (None, w2) \<Rightarrow> (None, w2))))"

definition OpenFile :: "('f, 'w) sftpFS \<Rightarrow> string \<Rightarrow> int \<Rightarrow> FileMode \<Rightarrow> 'w \<Rightarrow> (err + 'f) \<times> 'w" where
  "OpenFile wrapper name flag perm w =
     (case fullName wrapper ''open'' name of
        Inl e \<Rightarrow> (Inl e, w)
      | Inr full \<Rightarrow>
          (case CStat (client wrapper) full w of
             (stat, w1) \<Rightarrow>
               if (case stat of Inr info \<Rightarrow> IsDir info | Inl e \<Rightarrow> False)
               then (Inl (PathError ''open'' name (Sentinel ''is a directory'')), w1)
               else
                 (let create = (case stat of Inl e \<Rightarrow> errors_Is (Some e) ErrNotExist | Inr _ \<Rightarrow> False) in
                  case COpenFile (client wrapper) full flag w1 of
                    (Inl e, w2) \<Rightarrow> (Inl (PathError ''open'' name e), w2)
                  | (Inr file, w2) \<Rightarrow>
                      if \<not> create then (Inr file, w2)
                      else
                        (case FileChmod (client wrapper) file perm w2 of
                           (None, w3) \<Rightarrow> (Inr file, w3)
                         | (Some e, w3) \<Rightarrow>
                             (case FileClose (client wrapper) file w3 of (_, w4) \<Rightarrow> (Inl e, w4))))))"

definition Chmod :: "('f, 'w) sftpFS \<Rightarrow> string \<Rightarrow> FileMode \<Rightarrow> 'w \<Rightarrow> error \<times> 'w" where
  "Chmod wrapper name mode = path_call wrapper ''chmod'' name (\<lambda>full. CChmod (client wrapper) full mode)"

definition Chown :: "('f, 'w) sftpFS \<Rightarrow> string \<Rightarrow> int \<Rightarrow> int \<Rightarrow> 'w \<Rightarrow> error \<times> 'w" where
  "Chown wrapper name uid gid =
     path_call wrapper ''chown'' name (\<lambda>full. CChown (client wrapper) full uid gid)"

definition Chtimes :: "('f, 'w) sftpFS \<Rightarrow> string \<Rightarrow> int \<Rightarrow> int \<Rightarrow> 'w \<Rightarrow> error \<times> 'w" where
  "Chtimes wrapper name atime mtime =
     path_call wrapper ''chtimes'' name (\<lambda>full. CChtimes (client wrapper) full atime mtime)"

definition Remove :: "('f, 'w) sftpFS \<Rightarrow> string \<Rightarrow> 'w \<Rightarrow> error \<times> 'w" where
  "Remove wrapper name = path_call wrapper ''remove'' name (CRemove (client wrapper))"

definition Truncate :: "('f, 'w) sftpFS \<Rightarrow> string \<Rightarrow> int \<Rightarrow> 'w \<Rightarrow> error \<times> 'w" where
  "Truncate wrapper name n =
     path_call wrapper ''truncate'' name (\<lambda>full. CTruncate (client wrapper) full n)"

definition link_call ::
  "('f, 'w) sftpFS \<Rightarrow> string \<Rightarrow> string \<Rightarrow> string \<Rightarrow> (string \<Rightarrow> string \<Rightarrow> 'w \<Rightarrow> error \<times> 'w) \<Rightarrow> 'w
     \<Rightarrow> error \<times> 'w" where
  "link_call wrapper op old new call w =
     (case fullName wrapper op old of
        Inl e \<Rightarrow> (Some e, w)
      | Inr oldFull \<Rightarrow>
          (case fullName wrapper op new of
             Inl e \<Rightarrow> (Some e, w)
           | Inr newFull \<Rightarrow>
               (case call oldFull newFull w of
                  (Some e, w1) \<Rightarrow> (Some (LinkError op old new e), w1)
                | (None, w1) \<Rightarrow> (None, w1))))"

definition Rename :: "('f, 'w) sftpFS \<Rightarrow> string \<Rightarrow> string \<Rightarrow> 'w \<Rightarrow> error \<times> 'w" where
  "Rename wrapper oldPath newPath =
     link_call wrapper ''rename'' oldPath newPath (CRename (client wrapper))"

definition Symlink :: "('f, 'w) sftpFS \<Rightarrow> string \<Rightarrow> string \<Rightarrow> 'w \<Rightarrow> error \<times> 'w" where
  "Symlink wrapper oldName newName =
     link_call wrapper ''symlink'' oldName newName (CSymlink (client wrapper))"

section \<open>The contract of the operations on one path\<close>

text \<open>
  What a caller relies on: a name that is not valid is refused without touching the server,
  and every error is a \<open>PathError\<close> with the operation and the name as given.
\<close>

locale path_operation =
  fixes op :: string
    and valid :: "string \<Rightarrow> bool"
    and run :: "string \<Rightarrow> 'w \<Rightarrow> error \<times> 'w"
  assumes refuses: "\<not> valid name \<Longrightarrow> run name w = (Some (PathError op name (Sentinel ErrInvalid)), w)"
    and error_shape: "run name w = (Some e, w') \<Longrightarrow> \<exists>e'. e = PathError op name e'"
begin

text \<open>A batch stops at its first error; one of invalid names only has no effect.\<close>

fun batch :: "string list \<Rightarrow> 'w \<Rightarrow> error \<times> 'w" where
  "batch [] w = (None, w)"
| "batch (n # ns) w = (case run n w of (Some e, w1) \<Rightarrow> (Some e, w1) | (None, w1) \<Rightarrow> batch ns w1)"

lemma batch_invalid: "\<not> valid n \<Longrightarrow> batch (n # ns) w = (Some (PathError op n (Sentinel ErrInvalid)), w)"
  by (simp add: refuses)

lemma batch_error: "batch ns w = (Some e, w') \<Longrightarrow> \<exists>n \<in> set ns. \<exists>e'. e = PathError op n e'"
proof (induction ns arbitrary: w)
  case (Cons n ns)
  then show ?case using error_shape [of n w] by (auto split: prod.splits option.splits)
qed simp

lemma success_valid: "run name w = (None, w') \<Longrightarrow> valid name"
  using refuses by fastforce

end

lemma path_call_operation: "path_operation op (ValidPath (client s)) (\<lambda>name. path_call s op name call)"
  by unfold_locales (auto simp: path_call_def fullName_def split: prod.splits option.splits if_splits)

interpretation chmod: path_operation "''chmod''" "ValidPath (client s)" "\<lambda>name. Chmod s name mode"
  for s mode by (simp add: Chmod_def path_call_operation)

interpretation chown: path_operation "''chown''" "ValidPath (client s)" "\<lambda>name. Chown s name uid gid"
  for s uid gid by (simp add: Chown_def path_call_operation)

interpretation chtimes: path_operation "''chtimes''" "ValidPath (client s)" "\<lambda>name. Chtimes s name a m"
  for s a m by (simp add: Chtimes_def path_call_operation)

interpretation remove: path_operation "''remove''" "ValidPath (client s)" "\<lambda>name. Remove s name"
  for s by (simp add: Remove_def path_call_operation)

interpretation truncate: path_operation "''truncate''" "ValidPath (client s)" "\<lambda>name. Truncate s name n"
  for s n by (simp add: Truncate_def path_call_operation)

interpretation mkdir: path_operation "''mkdir''" "ValidPath (client s)" "\<lambda>name. Mkdir s name perm"
  for s perm
  by unfold_locales (auto simp: Mkdir_def fullName_def split: prod.splits option.splits if_splits)

section \<open>Properties\<close>


text \<open>
  A server whose state is the set of its directories and the files with their modes, and which
  knows absolute names only.
\<close>

definition sample_server :: "(string, string list \<times> (string \<rightharpoonup> FileMode)) sftp_client" where
  "sample_server =
     \<lparr>COpen = (\<lambda>p w. (Inr p, w)), CStat = (\<lambda>p (ds, fs).
        (if p \<in> set ds then Inr \<lparr>Name = p, Size = 0, Mode = 0x800001ED, IsDir = True\<rparr>
         else (case fs p of None \<Rightarrow> Inl (Native ''sftp: not exist'' [ErrNotExist])
               | Some m \<Rightarrow> Inr \<lparr>Name = p, Size = 0, Mode = m, IsDir = False\<rparr>), (ds, fs))),
      CReadDir = (\<lambda>p w. (Inr [], w)), CMkdir = (\<lambda>p (ds, fs). (None, (p # ds, fs))),
      COpenFile = (\<lambda>p f (ds, fs). (Inr p, (ds, if fs p = None then fs(p \<mapsto> 0x1B6) else fs))),
      CChmod = (\<lambda>p m (ds, fs).
        (if p \<in> set ds \<or> fs p \<noteq> None then None else Some (Native ''sftp: not exist'' [ErrNotExist]),
         (ds, fs))),
      CChown = (\<lambda>p u g w. (None, w)), CChtimes = (\<lambda>p a m w. (None, w)), CRemove = (\<lambda>p w. (None, w)),
      CRename = (\<lambda>p q w. (None, w)), CSymlink = (\<lambda>p q w. (None, w)), CTruncate = (\<lambda>p n w. (None, w)),
      FileChmod = (\<lambda>f m (ds, fs). (None, (ds, fs(f \<mapsto> m)))), FileClose = (\<lambda>f w. (None, w)),
      ValidPath = (\<lambda>p. p \<noteq> [] \<and> hd p \<noteq> CHR ''/'')\<rparr>"


text \<open>\<open>Mkdir\<close> sets the permissions of the wrong path: it creates the directory at the full
  name but calls \<open>Chmod\<close> with the name relative to the root. On a server that knows the
  created directory only, creating a directory makes it and still reports that it does not
  exist.\<close>

theorem Mkdir_chmods_other_path:
  "Mkdir (New sample_server ''/'') ''data'' 0x1ED ([], Map.empty) =
     (Some (PathError ''mkdir'' ''data'' (Native ''sftp: not exist'' [ErrNotExist])),
      ([''//data''], Map.empty))"
  by (simp add: Mkdir_def New_def fullName_def sample_server_def)



text \<open>The type bits of a mode, as \<open>FileMode.Type\<close> masks them.\<close>

definition ModeType :: FileMode where
  "ModeType = 0x8F280000"

text \<open>The type of a directory entry is its whole mode: it is the type bits only if the mode
  has no other bit, so a regular file with any permission is reported with them.\<close>

theorem entry_Type_not_masked:
  "(entry_Type e = Mode (fi e) AND ModeType \<longleftrightarrow> Mode (fi e) AND NOT ModeType = 0) \<and>
   entry_Type \<lparr>fi = \<lparr>Name = ''a'', Size = 1, Mode = 0x1A4, IsDir = False\<rparr>\<rparr> AND NOT ModeType \<noteq> 0"
proof
  show "entry_Type e = Mode (fi e) AND ModeType \<longleftrightarrow> Mode (fi e) AND NOT ModeType = 0"
    by (auto simp: entry_Type_def bit_eq_iff bit_simps dest: bit_imp_le_length)
next
  show "entry_Type \<lparr>fi = \<lparr>Name = ''a'', Size = 1, Mode = 0x1A4, IsDir = False\<rparr>\<rparr> AND NOT ModeType \<noteq> 0"
    by (simp add: entry_Type_def ModeType_def)
qed

text \<open>\<open>ReadDir\<close> returns the entries in the order in which the client lists them, without
  sorting them.\<close>

theorem ReadDir_order:
  assumes "ReadDir s name w = (Inr es, w')"
  shows "\<exists>files. CReadDir (client s) (prefix s @ ''/'' @ name) w = (Inr files, w') \<and>
    map entry_Name es = map Name files \<and> map entry_IsDir es = map IsDir files"
  using assms
  by (auto simp: ReadDir_def fullName_def entry_Name_def entry_IsDir_def comp_def
      split: sum.splits prod.splits if_splits)

lemma ReadDir_order_witness:
  "\<exists>files. CReadDir (sample_server\<lparr>CReadDir := (\<lambda>p w. (Inr [\<lparr>Name = ''b'', Size = 0, Mode = 0, IsDir = False\<rparr>,
      \<lparr>Name = ''a'', Size = 0, Mode = 0, IsDir = True\<rparr>], w))\<rparr>) ''//d'' ([], Map.empty) =
      (Inr files, ([], Map.empty)) \<and> map Name files = [''b'', ''a'']"
proof -
  let ?c = "sample_server\<lparr>CReadDir := (\<lambda>p w. (Inr [\<lparr>Name = ''b'', Size = 0, Mode = 0, IsDir = False\<rparr>,
      \<lparr>Name = ''a'', Size = 0, Mode = 0, IsDir = True\<rparr>], w))\<rparr>"
  have "ReadDir (New ?c ''/'') ''d'' ([], Map.empty) =
      (Inr [\<lparr>fi = \<lparr>Name = ''b'', Size = 0, Mode = 0, IsDir = False\<rparr>\<rparr>,
        \<lparr>fi = \<lparr>Name = ''a'', Size = 0, Mode = 0, IsDir = True\<rparr>\<rparr>], ([], Map.empty))"
    by (simp add: ReadDir_def New_def fullName_def sample_server_def)
  from ReadDir_order [OF this] show ?thesis by (auto simp: New_def entry_Name_def)
qed

end
