(* ===== verification/Fs_Path.thy ===== *)
theory Fs_Path
  imports Go_Path Go_Error "HOL-Library.Word"
begin

text \<open>
  fs.go: the type \<open>Path\<close> with its constructors and \<open>Perm\<close> with its defaults. The
  functions of \<open>path/filepath\<close> are those of a Unix system: the volume name is empty and
  \<open>ToSlash\<close> changes nothing.
\<close>

section \<open>Path\<close>

record Path =
  prefix :: string
  path :: string

abbreviation ErrNotAbsolute :: string where "ErrNotAbsolute \<equiv> ''not an absolute path''"
abbreviation ErrNotRelative :: string where "ErrNotRelative \<equiv> ''not a relative path''"

definition ToSlash :: "string \<Rightarrow> string" where
  "ToSlash p = p"

definition VolumeName :: "string \<Rightarrow> string" where
  "VolumeName p = []"

definition Path_String :: "Path \<Rightarrow> string" where
  "Path_String p = Join [prefix p, path p]"

definition removeSlash :: "string \<Rightarrow> string" where
  "removeSlash p = TrimPrefix p ''/''"

definition CleanPath :: "string \<Rightarrow> string" where
  "CleanPath p = ToSlash (Clean p)"

definition quoted_format :: string where
  "quoted_format = CHR 0x27 # ''%s'' @ CHR 0x27 # '': %w''"

definition NewPath :: "string \<Rightarrow> string \<Rightarrow> err + Path" where
  "NewPath pre p =
     (if \<not> IsAbs pre then Inl (Wrapf quoted_format [pre] (Sentinel ErrNotAbsolute))
      else if IsAbs p then Inl (Wrapf quoted_format [p] (Sentinel ErrNotRelative))
      else Inr \<lparr>prefix = CleanPath pre, path = CleanPath p\<rparr>)"

definition NewPathFromAbs :: "string \<Rightarrow> err + Path" where
  "NewPathFromAbs p =
     (if \<not> IsAbs p then Inl (Sentinel ErrNotAbsolute)
      else
        (let pre = ToSlash (VolumeName p) @ ''/''
         in Inr \<lparr>prefix = pre, path = TrimPrefix (ToSlash p) pre\<rparr>))"

text \<open>\<open>filepath.Abs\<close>, whose only input beside the path is what \<open>os.Getwd\<close> returns.\<close>

definition Abs :: "err + string \<Rightarrow> string \<Rightarrow> err + string" where
  "Abs getwd p =
     (if IsAbs p then Inr (Clean p)
      else (case getwd of Inl e \<Rightarrow> Inl e | Inr wd \<Rightarrow> Inr (Join [wd, p])))"

section \<open>Perm\<close>

type_synonym FileMode = "32 word"

record Perm =
  perm :: FileMode
  haveFilePerm :: bool
  dirPerm :: FileMode
  haveDirPerm :: bool

definition zero_Perm :: Perm where
  "zero_Perm = \<lparr>perm = 0, haveFilePerm = False, dirPerm = 0, haveDirPerm = False\<rparr>"

definition NewPerm :: "FileMode \<Rightarrow> Perm" where
  "NewPerm m = zero_Perm\<lparr>perm := m, haveFilePerm := True\<rparr>"

text \<open>\<open>WithDirPerm\<close> returns a copy of the receiver it changes: the pair of both.\<close>

definition WithDirPerm :: "Perm \<Rightarrow> FileMode \<Rightarrow> Perm \<times> Perm" where
  "WithDirPerm p m = (let p' = p\<lparr>dirPerm := m, haveDirPerm := True\<rparr> in (p', p'))"

definition GetFilePerm :: "Perm \<Rightarrow> FileMode" where
  "GetFilePerm p = (if haveFilePerm p then perm p else 0x1A4)"

definition GetDirPerm :: "Perm \<Rightarrow> FileMode" where
  "GetDirPerm p =
     (if haveDirPerm p then dirPerm p else if haveFilePerm p then perm p else 0x1ED)"

lemma Perm_simps [simp]:
  "GetFilePerm zero_Perm = 0x1A4" "GetDirPerm zero_Perm = 0x1ED"
  "GetFilePerm (NewPerm m) = m" "GetDirPerm (NewPerm m) = m"
  "GetFilePerm (fst (WithDirPerm p d)) = GetFilePerm p"
  "GetDirPerm (fst (WithDirPerm p d)) = d"
  by (simp_all add: GetFilePerm_def GetDirPerm_def zero_Perm_def NewPerm_def WithDirPerm_def Let_def)

section \<open>Components of joined paths\<close>

lemma ToSlash_simps [simp]: "ToSlash p = p" "VolumeName p = []" "CleanPath p = Clean p"
  by (simp_all add: ToSlash_def VolumeName_def CleanPath_def)

lemma Split_append_slash: "Split (p @ CHR ''/'' # q) CHR ''/'' = Split p CHR ''/'' @ Split q CHR ''/''"
  by (induction p) (auto split: list.splits)

lemma clean_comps_append:
  "clean_comps r (p @ CHR ''/'' # q) =
    rev (foldl (clean_step r) (rev (clean_comps r p)) (Split q CHR ''/''))"
  by (simp add: clean_comps_def Split_append_slash)

lemma Clean_eq: "Clean p = unsplit (IsAbs p) (clean_comps (IsAbs p) p)"
  by (simp add: Clean_def clean_comps_def unsplit_def)

lemma clean_comps_Clean [simp]: "r = IsAbs p \<Longrightarrow> clean_comps r (Clean p) = clean_comps r p"
  by (simp add: Clean_eq clean_comps_unsplit(3) normal_clean_comps)

lemma foldl_Split_unsplit:
  assumes "normal False cs"
  shows "foldl (clean_step r) st (Split (unsplit False cs) CHR ''/'') = foldl (clean_step r) st cs"
proof (cases "cs = []")
  case False
  with normal_no_slash [OF assms] have "Split (unsplit False cs) CHR ''/'' = cs"
    by (simp add: unsplit_def Split_join_with)
  then show ?thesis by simp
qed (simp add: unsplit_def)

text \<open>Below a root, walking a relative path and walking its cleaned form end at the same place.\<close>

lemma walk_clean_comps:
  assumes "\<forall>c \<in> set cs. CHR ''/'' \<notin> set c"
  shows "foldl (clean_step True) st (rev (foldl (clean_step False) [] cs)) = foldl (clean_step True) st cs"
  using assms
proof (induction cs rule: rev_induct)
  case (snoc c cs)
  let ?s = "foldl (clean_step False) [] cs"
  have "normal False (rev ?s)" using snoc.prems by (intro normal_foldl) auto
  then have "plain (hd ?s)" if "?s \<noteq> []"
    using that normal_plain [of False "rev ?s" "hd ?s"] by simp
  then have "foldl (clean_step True) st (rev (clean_step False ?s c)) =
      clean_step True (foldl (clean_step True) st (rev ?s)) c"
    by (cases ?s) (auto simp: plain_def)
  then show ?case using snoc by (simp del: clean_step.simps)
qed simp

lemma walk_Clean:
  assumes "\<not> IsAbs p"
  shows "foldl (clean_step True) st (Split (Clean p) CHR ''/'') = foldl (clean_step True) st (Split p CHR ''/'')"
proof -
  have "foldl (clean_step True) st (clean_comps False p) = foldl (clean_step True) st (Split p CHR ''/'')"
    using walk_clean_comps [of "Split p CHR ''/''" st] by (simp add: clean_comps_def Split_no_sep)
  then show ?thesis
    using assms by (simp add: Clean_eq foldl_Split_unsplit normal_clean_comps)
qed

lemma IsAbs_append: "p \<noteq> [] \<Longrightarrow> IsAbs (p @ q) = IsAbs p"
  by (cases p) simp_all

lemma Join_two: "a \<noteq> [] \<Longrightarrow> Join [a, b] = Clean (a @ CHR ''/'' # b)"
  by (simp add: Join_def)

lemma normal_no_dotdot: "normal False cs \<Longrightarrow> ''..'' \<notin> set cs \<Longrightarrow> normal True cs"
  by (induction cs) (auto split: if_splits)

lemma normal_append_names:
  "normal r cs \<Longrightarrow> normal True ds \<Longrightarrow> normal r (cs @ ds)"
proof (induction ds rule: rev_induct)
  case (snoc d ds)
  then have "normal True (ds @ [d])" by blast
  then have "normal True ds" "plain d" "d \<noteq> ''..''" by (auto simp: normal_snoc)
  with snoc have "normal r ((cs @ ds) @ [d])" by (simp only: normal_snoc) blast
  then show ?case by simp
qed simp

lemma clean_comps_single: "plain c \<Longrightarrow> c \<noteq> ''..'' \<Longrightarrow> clean_comps r c = [c]"
  by (simp add: clean_comps_def Split_single plain_def)

text \<open>Joining a plain name appends it as the last component.\<close>

definition name_ok :: "string \<Rightarrow> bool" where
  "name_ok n \<longleftrightarrow> plain n \<and> n \<noteq> ''..''"

lemma clean_step_name: "name_ok n \<Longrightarrow> clean_step r st n = n # st"
  by (auto simp: name_ok_def plain_def)

lemma Join_name:
  assumes "name_ok n"
  shows "IsAbs (Join [d, n]) = IsAbs d"
    and "clean_comps (IsAbs d) (Join [d, n]) = clean_comps (IsAbs d) d @ [n]"
proof -
  have n: "n \<noteq> []" "\<not> IsAbs n" "CHR ''/'' \<notin> set n"
    using assms by (cases n; force simp: name_ok_def plain_def)+
  show "IsAbs (Join [d, n]) = IsAbs d"
    using n by (cases d) (simp_all add: Join_def)
  show "clean_comps (IsAbs d) (Join [d, n]) = clean_comps (IsAbs d) d @ [n]"
  proof (cases d)
    case Nil
    then show ?thesis
      using n assms
      by (simp add: Join_def name_ok_def clean_comps_single) (simp add: clean_comps_def)
  next
    case (Cons c d')
    then have "Join [d, n] = Clean (d @ CHR ''/'' # n)" by (simp add: Join_two)
    moreover have "IsAbs (d @ CHR ''/'' # n) = IsAbs d" using Cons by simp
    ultimately show ?thesis
      using n assms by (simp add: clean_comps_append Split_single clean_step_name del: clean_step.simps)
  qed
qed

section \<open>Properties\<close>

lemma NewPath_Inr_iff:
  "NewPath pre p = Inr q \<longleftrightarrow>
     IsAbs pre \<and> \<not> IsAbs p \<and> q = \<lparr>prefix = Clean pre, path = Clean p\<rparr>"
  by (auto simp: NewPath_def)

lemma NewPath_error:
  "\<not> IsAbs pre \<Longrightarrow> NewPath pre p = Inl (Wrapf quoted_format [pre] (Sentinel ErrNotAbsolute))"
  "IsAbs pre \<Longrightarrow> IsAbs p \<Longrightarrow> NewPath pre p = Inl (Wrapf quoted_format [p] (Sentinel ErrNotRelative))"
  by (simp_all add: NewPath_def)

lemma Clean_rooted_join:
  assumes "IsAbs pre" and "\<not> IsAbs p"
  shows "Clean (Clean pre @ CHR ''/'' # Clean p) = Clean (pre @ CHR ''/'' # p)"
    and "clean_comps True (pre @ CHR ''/'' # p) =
      rev (foldl (clean_step True) (rev (clean_comps True pre)) (clean_comps False p))"
proof -
  have abs: "IsAbs (Clean pre @ CHR ''/'' # Clean p)" "IsAbs (pre @ CHR ''/'' # p)"
    using assms(1) by (cases pre; simp add: IsAbs_append)+
  show "Clean (Clean pre @ CHR ''/'' # Clean p) = Clean (pre @ CHR ''/'' # p)"
    using assms abs by (simp add: Clean_eq [of "_ @ _"] clean_comps_append walk_Clean)
  show "clean_comps True (pre @ CHR ''/'' # p) =
      rev (foldl (clean_step True) (rev (clean_comps True pre)) (clean_comps False p))"
    using walk_clean_comps [of "Split p CHR ''/''"]
    by (simp add: clean_comps_append clean_comps_def [of False] Split_no_sep)
qed

text \<open>C31. A path made by \<open>NewPath\<close> denotes the prefix followed by the path, cleaned; and when
  the path does not climb out with \<open>..\<close>, the components of the prefix are kept and those of
  the path follow them.\<close>

theorem NewPath_String:
  assumes "NewPath pre p = Inr q"
  shows "Path_String q = Clean (pre @ ''/'' @ p) \<and>
    (''..'' \<notin> set (clean_comps False p) \<longrightarrow>
      clean_comps True (Path_String q) = clean_comps True pre @ clean_comps False p)"
proof -
  from assms have q: "IsAbs pre" "\<not> IsAbs p" "q = \<lparr>prefix = Clean pre, path = Clean p\<rparr>"
    by (simp_all add: NewPath_Inr_iff)
  then have S: "Path_String q = Clean (pre @ CHR ''/'' # p)"
    by (simp add: Path_String_def Join_two Clean_rooted_join(1))
  have "foldl (clean_step True) (rev (clean_comps True pre)) (clean_comps False p) =
      rev (clean_comps False p) @ rev (clean_comps True pre)" if "''..'' \<notin> set (clean_comps False p)"
    using that by (intro foldl_normal) (simp add: normal_append_names normal_no_dotdot normal_clean_comps)
  moreover have "IsAbs (pre @ CHR ''/'' # p)" using q(1) by (cases pre) simp_all
  ultimately show ?thesis using S q Clean_rooted_join(2) [of pre p] by simp
qed

lemma NewPath_String_witness:
  "Path_String \<lparr>prefix = ''/home/user'', path = ''a/b''\<rparr> = ''/home/user/a/b''"
proof -
  have "NewPath ''/home//user/'' ''a/./b'' = Inr \<lparr>prefix = ''/home/user'', path = ''a/b''\<rparr>" by code_simp
  from NewPath_String [OF this]
  have "Path_String \<lparr>prefix = ''/home/user'', path = ''a/b''\<rparr> = Clean (''/home//user/'' @ ''/'' @ ''a/./b'')"
    by (rule conjunct1)
  moreover have "Clean (''/home//user/'' @ ''/'' @ ''a/./b'') = ''/home/user/a/b''" by code_simp
  ultimately show ?thesis by (rule trans)
qed

text \<open>\<open>NewPathFromAbs\<close> followed by \<open>String\<close> is \<open>Clean\<close> on every absolute path. Its path part
  is relative, as \<open>Path\<close> promises, unless the argument starts with two slashes.\<close>

theorem NewPathFromAbs_String:
  assumes "IsAbs p"
  shows "\<exists>q. NewPathFromAbs p = Inr q \<and> prefix q = ''/'' \<and> Path_String q = Clean p \<and>
    (IsAbs (path q) \<longleftrightarrow> HasPrefix p ''//'')"
proof -
  obtain r where r: "p = CHR ''/'' # r" using assms by (cases p) simp_all
  have "clean_comps True (CHR ''/'' # CHR ''/'' # r) = clean_comps True (CHR ''/'' # r)"
    by (simp add: clean_comps_def)
  then have "Clean (''/'' @ CHR ''/'' # r) = Clean p" by (simp add: r Clean_eq)
  then show ?thesis using r
    by (cases r) (auto simp: NewPathFromAbs_def TrimPrefix_def HasPrefix_def Path_String_def Join_two)
qed

lemma NewPathFromAbs_String_witness:
  "\<exists>q. NewPathFromAbs ''//etc/../x'' = Inr q \<and> prefix q = ''/'' \<and> Path_String q = ''/x'' \<and> IsAbs (path q)"
proof -
  have "IsAbs ''//etc/../x''" "Clean ''//etc/../x'' = ''/x''" "HasPrefix ''//etc/../x'' ''//''" by code_simp+
  with NewPathFromAbs_String [of "''//etc/../x''"] show ?thesis by metis
qed

text \<open>The type invariant of \<open>Path\<close>: an absolute, clean prefix and a path relative to it.\<close>

definition path_wf :: "Path \<Rightarrow> bool" where
  "path_wf p \<longleftrightarrow> IsAbs (prefix p) \<and> Clean (prefix p) = prefix p \<and> \<not> IsAbs (path p)"

text \<open>C40. \<open>NewPath\<close> makes well-formed paths only, \<open>NewPathFromAbs\<close> does so unless its argument
  starts with two slashes, and the string of a well-formed path is absolute and clean.\<close>

theorem constructed_paths_wf:
  "(NewPath pre p = Inr q \<longrightarrow> path_wf q) \<and>
   (NewPathFromAbs r = Inr q \<longrightarrow> (path_wf q \<longleftrightarrow> \<not> HasPrefix r ''//'')) \<and>
   (path_wf q \<longrightarrow> IsAbs (Path_String q) \<and> Clean (Path_String q) = Path_String q)"
proof (intro conjI impI)
  show "path_wf q" if "NewPath pre p = Inr q"
    using that by (auto simp: NewPath_Inr_iff path_wf_def)
next
  assume r: "NewPathFromAbs r = Inr q"
  then obtain s where "r = CHR ''/'' # s" "q = \<lparr>prefix = ''/'', path = s\<rparr>"
    by (cases r) (auto simp: NewPathFromAbs_def TrimPrefix_def HasPrefix_def split: if_splits)
  moreover have "Clean ''/'' = ''/''" by code_simp
  ultimately show "path_wf q \<longleftrightarrow> \<not> HasPrefix r ''//''"
    by (cases s) (auto simp: path_wf_def HasPrefix_def)
next
  assume wf: "path_wf q"
  then have "prefix q \<noteq> []" by (auto simp: path_wf_def)
  then have S: "Path_String q = Clean (prefix q @ CHR ''/'' # path q)" by (simp add: Path_String_def Join_two)
  with wf \<open>prefix q \<noteq> []\<close> show "IsAbs (Path_String q)" by (simp add: path_wf_def IsAbs_append)
  from S show "Clean (Path_String q) = Path_String q" by simp
qed

lemma constructed_paths_wf_witness:
  "path_wf \<lparr>prefix = ''/a'', path = ''b''\<rparr> \<and> \<not> path_wf \<lparr>prefix = ''/'', path = ''/b''\<rparr>"
proof -
  have a: "NewPath ''/a/'' ''b'' = Inr \<lparr>prefix = ''/a'', path = ''b''\<rparr>" by code_simp
  have b: "NewPathFromAbs ''//b'' = Inr \<lparr>prefix = ''/'', path = ''/b''\<rparr>" "HasPrefix ''//b'' ''//''" by code_simp+
  show ?thesis
    using constructed_paths_wf [of "''/a/''" "''b''" "\<lparr>prefix = ''/a'', path = ''b''\<rparr>" "''//b''"] a
      constructed_paths_wf [of "''/a/''" "''b''" "\<lparr>prefix = ''/'', path = ''/b''\<rparr>" "''//b''"] b
    by blast
qed

end
