(* ===== verification/File_Copy.thy ===== *)
theory File_Copy
  imports Fs_Path Go_Int
begin

text \<open>
  fs.go: uploads, downloads and the recursive copy between two file systems. The file
  systems are those of github.com/relab/wrfs: the record \<open>wrfs\<close> of the calls fs.go makes, on
  an opaque state \<open>'w\<close> (both file systems and whatever the progress callback keeps), with
  \<open>'f\<close> the type of a file system and \<open>'h\<close> that of an open file. \<open>io.Copy\<close> is written
  out, its loop as a partial function: a reader that never ends makes it \<open>None\<close>.
  The directory walks take fuel, one unit per level of the tree; \<open>None\<close> is a walk that is
  still running when it is used up.
\<close>

section \<open>The file systems\<close>

record FileInfo =
  Size :: int
  InfoIsDir :: bool

record 'w DirEntry =
  Name :: string
  IsDir :: bool
  Info :: "'w \<Rightarrow> (err + FileInfo) \<times> 'w"

type_synonym 'w reader = "'w \<Rightarrow> (string \<times> error) \<times> 'w"
type_synonym 'w writer = "string \<Rightarrow> 'w \<Rightarrow> (int \<times> error) \<times> 'w"

text \<open>
  \<open>WriteTo\<close> and \<open>ReadFrom\<close> are \<open>Some\<close> for the files that implement \<open>io.WriterTo\<close> and
  \<open>io.ReaderFrom\<close>.
\<close>

record ('f, 'h, 'w) wrfs =
  Sub :: "'f \<Rightarrow> string \<Rightarrow> err + 'f"
  DirFS :: "string \<Rightarrow> 'f"
  Stat :: "'f \<Rightarrow> string \<Rightarrow> 'w \<Rightarrow> (err + FileInfo) \<times> 'w"
  ReadDir :: "'f \<Rightarrow> string \<Rightarrow> 'w \<Rightarrow> (err + 'w DirEntry list) \<times> 'w"
  MkdirAll :: "'f \<Rightarrow> string \<Rightarrow> FileMode \<Rightarrow> 'w \<Rightarrow> error \<times> 'w"
  Open :: "'f \<Rightarrow> string \<Rightarrow> 'w \<Rightarrow> (err + 'h) \<times> 'w"
  OpenFile :: "'f \<Rightarrow> string \<Rightarrow> int \<Rightarrow> FileMode \<Rightarrow> 'w \<Rightarrow> (err + 'h) \<times> 'w"
  Read :: "'h \<Rightarrow> 'w reader"
  is_Writer :: "'h \<Rightarrow> bool"
  Write :: "'h \<Rightarrow> 'w writer"
  WriteTo :: "'h \<Rightarrow> ('h \<Rightarrow> 'w \<Rightarrow> (int \<times> error) \<times> 'w) option"
  ReadFrom :: "'h \<Rightarrow> ('w reader \<Rightarrow> 'w \<Rightarrow> (int \<times> error) \<times> 'w) option"
  Close :: "'h \<Rightarrow> 'w \<Rightarrow> error \<times> 'w"

text \<open>What fs.go asks of a host.\<close>

record 'f host =
  HostName :: string
  GetFS :: 'f

type_synonym 'w ProgressFunc = "int \<Rightarrow> 'w \<Rightarrow> 'w"

section \<open>io.Copy and the progress reader\<close>

definition progressReader_Read :: "'w ProgressFunc \<Rightarrow> 'w reader \<Rightarrow> 'w reader" where
  "progressReader_Read fn r w =
     (case r w of
        ((p, e), w1) \<Rightarrow> ((p, e), if 0 < length p then fn (int (length p)) w1 else w1))"

definition copy_chunk :: "'w writer \<Rightarrow> string \<Rightarrow> int \<Rightarrow> 'w \<Rightarrow> (int \<times> error) \<times> 'w" where
  "copy_chunk write buf written w =
     (case write buf w of
        ((nw, ew), w1) \<Rightarrow>
          (let bad = (nw < 0 \<or> int (length buf) < nw);
               n = (if bad then 0 else nw);
               e = (if bad \<and> ew = None then Some (Sentinel ''invalid write result'') else ew)
           in if e \<noteq> None then ((written + n, e), w1)
              else if n \<noteq> int (length buf) then ((written + n, Some (Sentinel ''short write'')), w1)
              else ((written + n, None), w1)))"

partial_function (option) copy_loop ::
  "'w reader \<Rightarrow> 'w writer \<Rightarrow> int \<Rightarrow> 'w \<Rightarrow> ((int \<times> error) \<times> 'w) option" where
  "copy_loop read write written w =
     (case read w of
        ((buf, er), w1) \<Rightarrow>
          (case (if buf = [] then ((written, None), w1) else copy_chunk write buf written w1) of
             ((n, Some e), w2) \<Rightarrow> Some ((n, Some e), w2)
           | ((n, None), w2) \<Rightarrow>
               (case er of
                  Some e \<Rightarrow> Some ((n, if e = Sentinel EOF then None else Some e), w2)
                | None \<Rightarrow> copy_loop read write n w2)))"

definition io_Copy ::
  "('f, 'h, 'w) wrfs \<Rightarrow> 'h \<Rightarrow> 'h \<Rightarrow> 'w ProgressFunc option \<Rightarrow> 'w \<Rightarrow> ((int \<times> error) \<times> 'w) option" where
  "io_Copy fsl writer fromF progress w =
     (let r = (case progress of None \<Rightarrow> Read fsl fromF
               | Some fn \<Rightarrow> progressReader_Read fn (Read fsl fromF));
          generic = (case ReadFrom fsl writer of
                       Some rf \<Rightarrow> Some (rf r w)
                     | None \<Rightarrow> copy_loop r (Write fsl writer) 0 w)
      in case progress of
           None \<Rightarrow> (case WriteTo fsl fromF of Some wt \<Rightarrow> Some (wt writer w) | None \<Rightarrow> generic)
         | Some fn \<Rightarrow> generic)"

section \<open>Copying files and directories\<close>

text \<open>The deferred calls of \<open>copyFile\<close>, last one first.\<close>

definition close_both :: "('f, 'h, 'w) wrfs \<Rightarrow> 'h \<Rightarrow> 'h \<Rightarrow> error \<Rightarrow> 'w \<Rightarrow> error \<times> 'w" where
  "close_both fsl fromF toF e w =
     (case Close fsl toF w of
        (c1, w1) \<Rightarrow>
          (case Close fsl fromF w1 of
             (c2, w2) \<Rightarrow> (safeClose c2 (safeClose c1 e [EOF]) [EOF], w2)))"

text \<open>\<open>O_WRONLY | O_CREATE | O_TRUNC\<close> on Linux.\<close>

definition copy_flags :: int where
  "copy_flags = 577"

definition copyFile ::
  "('f, 'h, 'w) wrfs \<Rightarrow> string \<Rightarrow> string \<Rightarrow> Perm \<Rightarrow> 'f \<Rightarrow> 'f \<Rightarrow> 'w ProgressFunc option \<Rightarrow> 'w \<Rightarrow>
   (error \<times> 'w) option" where
  "copyFile fsl src dest pm from to progress w =
     (case Open fsl from src w of
        (Inl e, w1) \<Rightarrow> Some (Some e, w1)
      | (Inr fromF, w1) \<Rightarrow>
          (case OpenFile fsl to dest copy_flags (GetFilePerm pm) w1 of
             (Inl e, w2) \<Rightarrow>
               (case Close fsl fromF w2 of (c, w3) \<Rightarrow> Some (safeClose c (Some e) [EOF], w3))
           | (Inr toF, w2) \<Rightarrow>
               if \<not> is_Writer fsl toF
               then Some (close_both fsl fromF toF
                 (Some (Wrapf ''cannot write to %s: %w'' [dest] (Sentinel ''unsupported operation''))) w2)
               else
                 (case io_Copy fsl toF fromF progress w2 of
                    None \<Rightarrow> None
                  | Some ((_, e), w3) \<Rightarrow> Some (close_both fsl fromF toF e w3))))"

fun copyDir :: "nat \<Rightarrow> ('f, 'h, 'w) wrfs \<Rightarrow> string \<Rightarrow> string \<Rightarrow> Perm \<Rightarrow> 'f \<Rightarrow> 'f \<Rightarrow>
      'w ProgressFunc option \<Rightarrow> 'w \<Rightarrow> (error \<times> 'w) option"
  and copy_entries :: "nat \<Rightarrow> ('f, 'h, 'w) wrfs \<Rightarrow> string \<Rightarrow> string \<Rightarrow> Perm \<Rightarrow> 'f \<Rightarrow> 'f \<Rightarrow>
      'w ProgressFunc option \<Rightarrow> 'w DirEntry list \<Rightarrow> 'w \<Rightarrow> (error \<times> 'w) option" where
  "copyDir 0 fsl src dest pm from to progress w = None"
| "copyDir (Suc n) fsl src dest pm from to progress w =
     (case ReadDir fsl from src w of
        (Inl e, w1) \<Rightarrow> Some (Some e, w1)
      | (Inr files, w1) \<Rightarrow>
          (case MkdirAll fsl to dest (GetDirPerm pm) w1 of
             (Some e, w2) \<Rightarrow> Some (Some e, w2)
           | (None, w2) \<Rightarrow> copy_entries n fsl src dest pm from to progress files w2))"
| "copy_entries n fsl src dest pm from to progress [] w = Some (None, w)"
| "copy_entries n fsl src dest pm from to progress (info # files) w =
     (case (if IsDir info
            then copyDir n fsl (Join [src, Name info]) (Join [dest, Name info]) pm from to progress w
            else copyFile fsl (Join [src, Name info]) (Join [dest, Name info]) pm from to progress w) of
        None \<Rightarrow> None
      | Some (Some e, w1) \<Rightarrow> Some (Some e, w1)
      | Some (None, w1) \<Rightarrow> copy_entries n fsl src dest pm from to progress files w1)"

fun totalSize :: "nat \<Rightarrow> ('f, 'h, 'w) wrfs \<Rightarrow> 'f \<Rightarrow> string \<Rightarrow> 'w \<Rightarrow> ((int \<times> error) \<times> 'w) option"
  and size_entries :: "nat \<Rightarrow> ('f, 'h, 'w) wrfs \<Rightarrow> 'f \<Rightarrow> string \<Rightarrow> int \<Rightarrow> 'w DirEntry list \<Rightarrow> 'w \<Rightarrow>
      ((int \<times> error) \<times> 'w) option" where
  "totalSize 0 fsl fsys dir w = None"
| "totalSize (Suc n) fsl fsys dir w =
     (case ReadDir fsl fsys dir w of
        (Inl e, w1) \<Rightarrow> Some ((0, Some e), w1)
      | (Inr entries, w1) \<Rightarrow> size_entries n fsl fsys dir 0 entries w1)"
| "size_entries n fsl fsys dir acc [] w = Some ((acc, None), w)"
| "size_entries n fsl fsys dir acc (e # es) w =
     (if IsDir e
      then
        (case totalSize n fsl fsys (Join [dir, Name e]) w of
           None \<Rightarrow> None
         | Some ((_, Some er), w1) \<Rightarrow> Some ((acc, Some er), w1)
         | Some ((k, None), w1) \<Rightarrow> size_entries n fsl fsys dir (wrap_int (acc + k)) es w1)
      else
        (case Info e w of
           (Inl er, w1) \<Rightarrow> Some ((acc, Some er), w1)
         | (Inr info, w1) \<Rightarrow> size_entries n fsl fsys dir (wrap_int (acc + Size info)) es w1))"

section \<open>The actions\<close>

record Transfer =
  Src :: Path
  Dest :: Path
  TPerm :: Perm

record copyAction =
  src :: Path
  dest :: Path
  fetch :: bool
  cperm :: Perm

definition copyAction_Apply ::
  "nat \<Rightarrow> ('f, 'h, 'w) wrfs \<Rightarrow> copyAction \<Rightarrow> 'f host \<Rightarrow> 'w \<Rightarrow> (error \<times> 'w) option" where
  "copyAction_Apply fuel fsl ca h w =
     (let fss = (if fetch ca
                 then map_sum id (\<lambda>from. (from, DirFS fsl (prefix (dest ca))))
                   (Sub fsl (GetFS h) (removeSlash (prefix (src ca))))
                 else map_sum id (\<lambda>to. (DirFS fsl (prefix (src ca)), to))
                   (Sub fsl (GetFS h) (removeSlash (prefix (dest ca)))))
      in case fss of
           Inl e \<Rightarrow> Some (Some e, w)
         | Inr (from, to) \<Rightarrow>
             (case Stat fsl from (path (src ca)) w of
                (Inl e, w1) \<Rightarrow> Some (Some e, w1)
              | (Inr info, w1) \<Rightarrow>
                  if InfoIsDir info
                  then copyDir fuel fsl (path (src ca))
                    (if fetch ca then Join [path (dest ca), HostName h] else path (dest ca))
                    (cperm ca) from to None w1
                  else copyFile fsl (path (src ca))
                    (if fetch ca then path (dest ca) @ ''.'' @ HostName h else path (dest ca))
                    (cperm ca) from to None w1))"

definition Upload_Apply ::
  "nat \<Rightarrow> ('f, 'h, 'w) wrfs \<Rightarrow> Transfer \<Rightarrow> 'f host \<Rightarrow> 'w \<Rightarrow> (error \<times> 'w) option" where
  "Upload_Apply fuel fsl u =
     copyAction_Apply fuel fsl \<lparr>src = Src u, dest = Dest u, fetch = False, cperm = TPerm u\<rparr>"

definition Download_Apply ::
  "nat \<Rightarrow> ('f, 'h, 'w) wrfs \<Rightarrow> Transfer \<Rightarrow> 'f host \<Rightarrow> 'w \<Rightarrow> (error \<times> 'w) option" where
  "Download_Apply fuel fsl d =
     copyAction_Apply fuel fsl \<lparr>src = Src d, dest = Dest d, fetch = True, cperm = TPerm d\<rparr>"

definition UploadFile ::
  "nat \<Rightarrow> ('f, 'h, 'w) wrfs \<Rightarrow> err + string \<Rightarrow> 'f host \<Rightarrow> string \<Rightarrow> string \<Rightarrow> Perm \<Rightarrow> 'w \<Rightarrow>
   (error \<times> 'w) option" where
  "UploadFile fuel fsl getwd h localPath remotePath pm w =
     (case Abs getwd localPath of
        Inl e \<Rightarrow> Some (Some e, w)
      | Inr absLocal \<Rightarrow>
          (case NewPathFromAbs absLocal of
             Inl e \<Rightarrow> Some (Some e, w)
           | Inr s \<Rightarrow>
               (case NewPath (Dir remotePath) (Base remotePath) of
                  Inl e \<Rightarrow> Some (Some e, w)
                | Inr d \<Rightarrow> Upload_Apply fuel fsl \<lparr>Src = s, Dest = d, TPerm = pm\<rparr> h w)))"

record 'w DownloadDir =
  DSrc :: Path
  DDest :: Path
  Progress :: "'w ProgressFunc option"

definition DownloadDir_Apply ::
  "nat \<Rightarrow> ('f, 'h, 'w) wrfs \<Rightarrow> 'w DownloadDir \<Rightarrow> 'f host \<Rightarrow> 'w \<Rightarrow> (error \<times> 'w) option" where
  "DownloadDir_Apply fuel fsl d h w =
     (case Sub fsl (GetFS h) (removeSlash (prefix (DSrc d))) of
        Inl e \<Rightarrow> Some (Some e, w)
      | Inr from \<Rightarrow>
          copyDir fuel fsl (path (DSrc d)) (path (DDest d)) zero_Perm from
            (DirFS fsl (prefix (DDest d))) (Progress d) w)"

definition DownloadDir_Size ::
  "nat \<Rightarrow> ('f, 'h, 'w) wrfs \<Rightarrow> 'w DownloadDir \<Rightarrow> 'f host \<Rightarrow> 'w \<Rightarrow> ((int \<times> error) \<times> 'w) option" where
  "DownloadDir_Size fuel fsl d h w =
     (case Sub fsl (GetFS h) (removeSlash (prefix (DSrc d))) of
        Inl e \<Rightarrow> Some ((0, Some e), w)
      | Inr from \<Rightarrow> totalSize fuel fsl from (path (DSrc d)) w)"

section \<open>The copy of a tree as a list of actions\<close>

text \<open>
  A finite directory tree, with the sizes of its files, and what copying it does: read a
  directory, make the destination, then the entries in the order of the listing.
\<close>

datatype tree = File int | Folder "(string \<times> tree) list"

datatype action = Listing string | Making string | Copying string string

fun is_folder :: "tree \<Rightarrow> bool" where
  "is_folder (File n) = False"
| "is_folder (Folder es) = True"

fun plan :: "string \<Rightarrow> string \<Rightarrow> tree \<Rightarrow> action list" where
  "plan s d (File n) = [Copying s d]"
| "plan s d (Folder es) =
     [Listing s, Making d] @ concat (map (\<lambda>(n, t). plan (Join [s, n]) (Join [d, n]) t) es)"

fun height :: "tree \<Rightarrow> nat" where
  "height (File n) = 0"
| "height (Folder es) = Suc (foldr (\<lambda>(n, t). max (height t)) es 0)"

fun tree_size :: "tree \<Rightarrow> int" where
  "tree_size (File n) = n"
| "tree_size (Folder es) = sum_list (map (\<lambda>(n, t). tree_size t) es)"

definition run_action ::
  "('f, 'h, 'w) wrfs \<Rightarrow> Perm \<Rightarrow> 'f \<Rightarrow> 'f \<Rightarrow> 'w ProgressFunc option \<Rightarrow> action \<Rightarrow> 'w \<Rightarrow> (error \<times> 'w) option" where
  "run_action fsl pm from to progress a w =
     (case a of
        Listing s \<Rightarrow> (case ReadDir fsl from s w of (r, w1) \<Rightarrow> Some (case r of Inl e \<Rightarrow> Some e | Inr _ \<Rightarrow> None, w1))
      | Making d \<Rightarrow> Some (MkdirAll fsl to d (GetDirPerm pm) w)
      | Copying s d \<Rightarrow> copyFile fsl s d pm from to progress w)"

fun run_plan ::
  "('f, 'h, 'w) wrfs \<Rightarrow> Perm \<Rightarrow> 'f \<Rightarrow> 'f \<Rightarrow> 'w ProgressFunc option \<Rightarrow> action list \<Rightarrow> 'w \<Rightarrow>
   (error \<times> 'w) option" where
  "run_plan fsl pm from to progress [] w = Some (None, w)"
| "run_plan fsl pm from to progress (a # as) w =
     (case run_action fsl pm from to progress a w of
        None \<Rightarrow> None
      | Some (Some e, w1) \<Rightarrow> Some (Some e, w1)
      | Some (None, w1) \<Rightarrow> run_plan fsl pm from to progress as w1)"

text \<open>
  The directory \<open>s\<close> of a file system is the tree \<open>t\<close>: whenever a listing in it succeeds, it
  has the names and kinds of the tree. \<open>sized\<close> adds that listings succeed and report the
  sizes of the files.
\<close>

fun lists :: "('f, 'h, 'w) wrfs \<Rightarrow> 'f \<Rightarrow> string \<Rightarrow> tree \<Rightarrow> bool" where
  "lists fsl from s (File n) = True"
| "lists fsl from s (Folder es) =
     ((\<forall>w files w'. ReadDir fsl from s w = (Inr files, w') \<longrightarrow>
         map (\<lambda>i. (Name i, IsDir i)) files = map (\<lambda>(n, t). (n, is_folder t)) es) \<and>
      (\<forall>(n, t) \<in> set es. lists fsl from (Join [s, n]) t))"

fun entry_of :: "'w DirEntry \<Rightarrow> string \<times> tree \<Rightarrow> bool" where
  "entry_of i (n, Folder es) = (Name i = n \<and> IsDir i)"
| "entry_of i (n, File k) =
     (Name i = n \<and> \<not> IsDir i \<and> (\<forall>w. \<exists>w'. Info i w = (Inr \<lparr>Size = k, InfoIsDir = False\<rparr>, w')))"

fun sized :: "('f, 'h, 'w) wrfs \<Rightarrow> 'f \<Rightarrow> string \<Rightarrow> tree \<Rightarrow> bool" where
  "sized fsl from s (File n) = True"
| "sized fsl from s (Folder es) =
     ((\<forall>w. \<exists>files w'. ReadDir fsl from s w = (Inr files, w') \<and> list_all2 entry_of files es) \<and>
      (\<forall>(n, t) \<in> set es. sized fsl from (Join [s, n]) t))"

lemma run_plan_append:
  "run_plan fsl pm from to progress (as @ bs) w =
     (case run_plan fsl pm from to progress as w of
        None \<Rightarrow> None
      | Some (Some e, w1) \<Rightarrow> Some (Some e, w1)
      | Some (None, w1) \<Rightarrow> run_plan fsl pm from to progress bs w1)"
  by (induction as arbitrary: w) (auto split: option.splits)

lemma run_plan_single [simp]:
  "run_plan fsl pm from to progress [a] w = run_action fsl pm from to progress a w"
  by (auto split: option.splits)

lemma height_member: "(n, t) \<in> set es \<Longrightarrow> height t \<le> foldr (\<lambda>(n, t). max (height t)) es 0"
  by (induction es) (auto simp: le_max_iff_disj)

text \<open>With fuel for the height of the tree, the recursion runs the plan.\<close>

lemma copyDir_plan:
  "lists fsl from s (Folder ts) \<Longrightarrow> height (Folder ts) \<le> fuel \<Longrightarrow>
    copyDir fuel fsl s d pm from to progress w = run_plan fsl pm from to progress (plan s d (Folder ts)) w"
  "\<forall>(n, t) \<in> set es. lists fsl from (Join [s, n]) t \<and> height t \<le> fuel \<Longrightarrow>
    map (\<lambda>i. (Name i, IsDir i)) files = map (\<lambda>(n, t). (n, is_folder t)) es \<Longrightarrow>
    copy_entries fuel fsl s d pm from to progress files w =
    run_plan fsl pm from to progress (concat (map (\<lambda>(n, t). plan (Join [s, n]) (Join [d, n]) t) es)) w"
proof (induction fuel fsl s d pm "from" to progress w
    and fuel fsl s d pm "from" to progress files w arbitrary: ts and es rule: copyDir_copy_entries.induct)
  case (2 n fsl s d pm src_fs to progress w)
  show ?case
  proof (cases "ReadDir fsl src_fs s w")
    case (Pair r w1)
    show ?thesis
    proof (cases r)
      case (Inl e)
      with Pair show ?thesis by (simp add: run_action_def)
    next
      case (Inr files)
      obtain e w2 where mk: "MkdirAll fsl to d (GetDirPerm pm) w1 = (e, w2)" by fastforce
      have files: "map (\<lambda>i. (Name i, IsDir i)) files = map (\<lambda>(n, t). (n, is_folder t)) ts"
        and sub: "\<forall>(m, t) \<in> set ts. lists fsl src_fs (Join [s, m]) t \<and> height t \<le> n"
        using 2(2,3) Pair Inr height_member by (fastforce intro: order_trans)+
      from 2(1) [OF Pair [symmetric] Inr mk [symmetric] _ sub files]
      show ?thesis using Pair Inr mk by (cases e) (simp_all add: run_action_def)
    qed
  qed
next
  case (4 n fsl s d pm src_fs to progress info files w)
  then obtain m t es' where es: "es = (m, t) # es'" by (cases es) auto
  have head: "(if IsDir info
      then copyDir n fsl (Join [s, Name info]) (Join [d, Name info]) pm src_fs to progress w
      else copyFile fsl (Join [s, Name info]) (Join [d, Name info]) pm src_fs to progress w) =
    run_plan fsl pm src_fs to progress (plan (Join [s, m]) (Join [d, m]) t) w"
  proof (cases t)
    case (File k)
    with 4(3,4) es show ?thesis by (auto simp: run_action_def split: option.splits)
  next
    case (Folder us)
    with 4(3,4) es 4(1) [of us] show ?thesis by simp
  qed
  show ?case
    using 4(2) [of _ _ _ es'] 4(3,4) es
    by (simp only: copy_entries.simps head list.map concat.simps run_plan_append prod.case)
      (auto split: option.splits)
qed simp_all

section \<open>Sizes\<close>

lemma wrap_int_add [simp]:
  "wrap_int (wrap_int a + b) = wrap_int (a + b)" "wrap_int (a + wrap_int b) = wrap_int (a + b)"
  by (simp_all add: wrap_int_word)

lemma totalSize_tree:
  "sized fsl fsys s (Folder ts) \<Longrightarrow> height (Folder ts) \<le> fuel \<Longrightarrow>
    \<exists>w'. totalSize fuel fsl fsys s w = Some ((wrap_int (tree_size (Folder ts)), None), w')"
  "\<forall>(n, t) \<in> set es. sized fsl fsys (Join [s, n]) t \<and> height t \<le> fuel \<Longrightarrow>
    list_all2 entry_of files es \<Longrightarrow> in_int acc \<Longrightarrow>
    \<exists>w'. size_entries fuel fsl fsys s acc files w =
      Some ((wrap_int (acc + sum_list (map (\<lambda>(n, t). tree_size t) es)), None), w')"
proof (induction fuel fsl fsys s w and fuel fsl fsys s acc files w
    arbitrary: ts and es rule: totalSize_size_entries.induct)
  case (2 n fsl fsys s w)
  then obtain files w1 where r: "ReadDir fsl fsys s w = (Inr files, w1)" "list_all2 entry_of files ts"
    by fastforce
  have "\<forall>(m, t) \<in> set ts. sized fsl fsys (Join [s, m]) t \<and> height t \<le> n"
    using 2(2,3) height_member by (fastforce intro: order_trans)
  from 2(1) [OF r(1) [symmetric] refl this r(2)] show ?case using r(1) by (simp add: in_int_def)
next
  case (4 n fsl fsys s acc e files w)
  then obtain m t es' where es: "es = (m, t) # es'" by (cases es) auto
  show ?case
  proof (cases t)
    case (File k)
    then obtain w1 where "Info e w = (Inr \<lparr>Size = k, InfoIsDir = False\<rparr>, w1)" "\<not> IsDir e"
      using 4 es by fastforce
    with 4 es File show ?thesis by (simp add: add.assoc in_int_wrap_int)
  next
    case (Folder us)
    then obtain w1 where w1:
        "totalSize n fsl fsys (Join [s, Name e]) w = Some ((wrap_int (tree_size t), None), w1)" "IsDir e"
      using 4 es by fastforce
    have "\<exists>w'. size_entries n fsl fsys s (wrap_int (acc + wrap_int (tree_size t))) files w1 =
        Some ((wrap_int (wrap_int (acc + wrap_int (tree_size t)) +
          sum_list (map (\<lambda>(n, t). tree_size t) es')), None), w')"
      using 4(4-) es by (intro 4(2) [OF w1(2,1) refl refl refl]) (auto simp: in_int_wrap_int)
    with w1 es show ?thesis by (simp add: add.assoc)
  qed
qed simp_all

section \<open>The contents of a copied file\<close>

text \<open>
  \<open>io.Reader\<close> and \<open>io.Writer\<close> as documented, for a file whose remaining bytes are
  \<open>rest\<close> and one that has \<open>written\<close>: a read returns a prefix of what is left, at least a
  byte or the end of the file; a write takes all it is given. \<open>counted\<close> is what the
  progress callback has been told, \<open>k\<close> times the bytes read here.
\<close>

definition streams ::
  "int \<Rightarrow> 'w reader \<Rightarrow> 'w writer \<Rightarrow> ('w \<Rightarrow> string) \<Rightarrow> ('w \<Rightarrow> string) \<Rightarrow> ('w \<Rightarrow> int) \<Rightarrow> bool" where
  "streams k read write rest written counted \<longleftrightarrow>
     (\<forall>w. case read w of ((d, e), w1) \<Rightarrow>
        rest w = d @ rest w1 \<and> written w1 = written w \<and> counted w1 = counted w + k * int (length d) \<and>
        (e = None \<and> d \<noteq> [] \<or> e = Some (Sentinel EOF) \<and> rest w1 = [])) \<and>
     (\<forall>d w. case write d w of (r, w1) \<Rightarrow>
        r = (int (length d), None) \<and> rest w1 = rest w \<and> written w1 = written w @ d \<and>
        counted w1 = counted w)"

definition counts :: "'w ProgressFunc \<Rightarrow> ('w \<Rightarrow> string) \<Rightarrow> ('w \<Rightarrow> string) \<Rightarrow> ('w \<Rightarrow> int) \<Rightarrow> bool" where
  "counts fn rest written counted \<longleftrightarrow>
     (\<forall>n w. rest (fn n w) = rest w \<and> written (fn n w) = written w \<and> counted (fn n w) = counted w + n)"

lemma copy_loop_streams:
  assumes "streams k read write rest written counted"
  shows "\<exists>w'. copy_loop read write n w = Some ((n + int (length (rest w)), None), w') \<and>
    rest w' = [] \<and> written w' = written w @ rest w \<and>
    counted w' = counted w + k * int (length (rest w))"
proof (induction "length (rest w)" arbitrary: n w rule: less_induct)
  case less
  obtain d e w1 where r: "read w = ((d, e), w1)" by (metis surj_pair)
  with assms have rd: "rest w = d @ rest w1" "written w1 = written w"
      "counted w1 = counted w + k * int (length d)"
      "e = None \<and> d \<noteq> [] \<or> e = Some (Sentinel EOF) \<and> rest w1 = []"
    unfolding streams_def by (auto dest!: spec [of _ w])
  obtain w2 where wr: "(if d = [] then ((n, None), w1) else copy_chunk write d n w1) =
      ((n + int (length d), None), w2)" and keep: "rest w2 = rest w1" "written w2 = written w1 @ d"
      "counted w2 = counted w1"
  proof (cases "d = []")
    case False
    obtain r w2 where "write d w1 = (r, w2)" by fastforce
    with assms have "write d w1 = ((int (length d), None), w2)" "rest w2 = rest w1"
        "written w2 = written w1 @ d" "counted w2 = counted w1"
      unfolding streams_def by (auto dest!: spec [of _ d] spec [of _ w1])
    with False that [of w2] show ?thesis by (simp add: copy_chunk_def)
  qed (use that [of w1] in simp)
  show ?case
  proof (cases e)
    case None
    with rd have "length (rest w2) < length (rest w)" using keep by simp
    from less [OF this, of "n + int (length d)"] show ?thesis
      using None rd keep
      by (subst copy_loop.simps) (simp only: r wr prod.case option.case, auto simp: algebra_simps)
  next
    case (Some x)
    with rd keep show ?thesis
      by (subst copy_loop.simps) (simp only: r wr prod.case option.case, auto)
  qed
qed

lemma progressReader_streams:
  assumes "streams 0 read write rest written counted" and "counts fn rest written counted"
  shows "streams 1 (progressReader_Read fn read) write rest written counted"
  unfolding streams_def
proof (intro conjI allI)
  fix w
  obtain d e w1 where r: "read w = ((d, e), w1)" by (metis surj_pair)
  with assms(1) have "rest w = d @ rest w1" "written w1 = written w" "counted w1 = counted w"
      "e = None \<and> d \<noteq> [] \<or> e = Some (Sentinel EOF) \<and> rest w1 = []"
    unfolding streams_def by (auto dest!: spec [of _ w])
  with assms(2) show "case progressReader_Read fn read w of ((d, e), w1) \<Rightarrow>
      rest w = d @ rest w1 \<and> written w1 = written w \<and> counted w1 = counted w + 1 * int (length d) \<and>
      (e = None \<and> d \<noteq> [] \<or> e = Some (Sentinel EOF) \<and> rest w1 = [])"
    by (auto simp: progressReader_Read_def r counts_def)
next
  fix d w
  show "case write d w of (r, w1) \<Rightarrow> r = (int (length d), None) \<and> rest w1 = rest w \<and>
      written w1 = written w @ d \<and> counted w1 = counted w"
    using assms(1) by (simp add: streams_def)
qed

lemma copyFile_contents:
  assumes "Open fsl from_fs s w = (Inr fromF, w1)"
    and "OpenFile fsl to_fs d copy_flags (GetFilePerm pm) w1 = (Inr toF, w2)"
    and "is_Writer fsl toF" and "WriteTo fsl fromF = None" and "ReadFrom fsl toF = None"
    and "streams 0 (Read fsl fromF) (Write fsl toF) rest written counted"
    and "case progress of None \<Rightarrow> True | Some fn \<Rightarrow> counts fn rest written counted"
  shows "\<exists>w3. copyFile fsl s d pm from_fs to_fs progress w = Some (close_both fsl fromF toF None w3) \<and>
    rest w3 = [] \<and> written w3 = written w2 @ rest w2 \<and>
    counted w3 = counted w2 + (case progress of None \<Rightarrow> 0 | Some fn \<Rightarrow> int (length (rest w2)))"
proof (cases progress)
  case None
  with assms copy_loop_streams [OF assms(6), of 0 w2] show ?thesis
    by (auto simp: copyFile_def io_Copy_def)
next
  case (Some fn)
  with assms(7) have "counts fn rest written counted" by simp
  from copy_loop_streams [OF progressReader_streams [OF assms(6) this], of 0 w2] show ?thesis
    using assms Some by (auto simp: copyFile_def io_Copy_def)
qed

section \<open>Where a plan writes\<close>

text \<open>Every file is written into a directory made before; \<open>made_before ms\<close> has made \<open>ms\<close>.\<close>

fun made_before :: "string list \<Rightarrow> action list \<Rightarrow> bool" where
  "made_before ms [] = True"
| "made_before ms (Listing s # as) = made_before ms as"
| "made_before ms (Making d # as) = made_before (d # ms) as"
| "made_before ms (Copying s d # as) = ((\<exists>m \<in> set ms. \<exists>n. d = Join [m, n]) \<and> made_before ms as)"

fun written_to :: "action \<Rightarrow> string list" where
  "written_to (Listing s) = []"
| "written_to (Making d) = [d]"
| "written_to (Copying s d) = [d]"

definition targets :: "action list \<Rightarrow> string list" where
  "targets as = concat (map written_to as)"

fun names_ok :: "tree \<Rightarrow> bool" where
  "names_ok (File n) = True"
| "names_ok (Folder es) = (\<forall>(n, t) \<in> set es. name_ok n \<and> names_ok t)"

lemma made_before_mono: "made_before ms as \<Longrightarrow> set ms \<subseteq> set ms' \<Longrightarrow> made_before ms' as"
proof (induction ms as arbitrary: ms' rule: made_before.induct)
  case (3 ms d as)
  have "set (d # ms) \<subseteq> set (d # ms')" using 3(3) by auto
  with 3 show ?case by (simp only: made_before.simps)
qed auto

lemma made_before_append: "made_before ms as \<Longrightarrow> made_before ms bs \<Longrightarrow> made_before ms (as @ bs)"
proof (induction ms as rule: made_before.induct)
  case (3 ms d as)
  have "made_before (d # ms) bs" using 3(3) by (rule made_before_mono) auto
  with 3 show ?case by simp
qed auto

lemma made_before_concat: "(\<forall>as \<in> set ass. made_before ms as) \<Longrightarrow> made_before ms (concat ass)"
  by (induction ass) (auto intro: made_before_append)

lemma plan_made_before: "m \<in> set ms \<Longrightarrow> made_before ms (plan s (Join [m, n]) t)"
proof (induction s "Join [m, n]" t arbitrary: m n ms rule: plan.induct)
  case (2 s es)
  have "made_before (Join [m, n] # ms) (plan (Join [s, k]) (Join [Join [m, n], k]) t)"
    if "(k, t) \<in> set es" for k t
    using that by (intro 2(1)) auto
  then show ?case by (auto intro!: made_before_concat)
qed auto

lemma plan_Folder_made_before: "made_before [] (plan s d (Folder es))"
  by (auto intro!: made_before_concat plan_made_before)

text \<open>Everything a plan writes is at or below its destination.\<close>

lemma targets_simps [simp]:
  "targets [] = []" "targets (a # as) = written_to a @ targets as"
  "targets (as @ bs) = targets as @ targets bs" "set (targets (concat ass)) = (\<Union>as \<in> set ass. set (targets as))"
  by (auto simp: targets_def)

lemma plan_below:
  "names_ok t \<Longrightarrow> q \<in> set (targets (plan s d t)) \<Longrightarrow>
    \<exists>cs. IsAbs q = IsAbs d \<and> clean_comps (IsAbs d) q = clean_comps (IsAbs d) d @ cs"
proof (induction s d t rule: plan.induct)
  case (2 s d es)
  show ?case
  proof (cases "q = d")
    case False
    with 2(3) obtain n t where nt: "(n, t) \<in> set es" "q \<in> set (targets (plan (Join [s, n]) (Join [d, n]) t))"
      by auto
    from nt(1) 2(2) have ok: "name_ok n" "names_ok t" by auto
    from 2(1) [OF nt(1) refl ok(2) nt(2)] show ?thesis using Join_name [OF ok(1), of d] by auto
  qed auto
qed auto

lemma plans_disjoint:
  assumes "name_ok m" and "name_ok n" and "m \<noteq> n" and "names_ok t" and "names_ok u"
  shows "set (targets (plan s (Join [d, m]) t)) \<inter> set (targets (plan s' (Join [d, n]) u)) = {}"
proof (rule equals0I)
  fix q
  assume "q \<in> set (targets (plan s (Join [d, m]) t)) \<inter> set (targets (plan s' (Join [d, n]) u))"
  then have q: "q \<in> set (targets (plan s (Join [d, m]) t))" "q \<in> set (targets (plan s' (Join [d, n]) u))"
    by simp_all
  obtain cs ds where "clean_comps (IsAbs d) q = clean_comps (IsAbs d) d @ [m] @ cs"
      "clean_comps (IsAbs d) q = clean_comps (IsAbs d) d @ [n] @ ds"
    using plan_below [OF assms(4) q(1)] plan_below [OF assms(5) q(2)]
      Join_name [OF assms(1), of d] Join_name [OF assms(2), of d] by auto
  with assms(3) show False by simp
qed

section \<open>The destination of UploadFile\<close>

lemma Dir_Base_split:
  assumes "CHR ''/'' \<notin> set b"
  shows "Dir (d @ CHR ''/'' # b) = Clean (d @ ''/'')"
    and "b \<noteq> [] \<Longrightarrow> Base (d @ CHR ''/'' # b) = b"
proof -
  have b: "\<forall>c \<in> set (rev b). c \<noteq> CHR ''/''" using assms by auto
  show "Dir (d @ CHR ''/'' # b) = Clean (d @ ''/'')"
    using dropWhile_append_stop [OF b, of "CHR ''/''" "rev d"] by (simp add: Dir_def)
  assume "b \<noteq> []"
  then obtain b' c where c: "b = b' @ [c]" "c \<noteq> CHR ''/''" using assms by (cases b rule: rev_cases) auto
  then have "strip_slashes (d @ CHR ''/'' # b) = d @ CHR ''/'' # b" by (simp add: strip_slashes_def)
  then show "Base (d @ CHR ''/'' # b) = b"
    using takeWhile_append_stop [OF b, of "CHR ''/''" "rev d"] \<open>b \<noteq> []\<close> by (simp add: Base_def)
qed

lemma split_last_slash:
  assumes "IsAbs r"
  obtains d b where "r = d @ CHR ''/'' # b" and "CHR ''/'' \<notin> set b"
  using assms split_list_last [of "CHR ''/''" r] by (cases r) auto

lemma Clean_extra_slash: "IsAbs (d @ ''/'') \<Longrightarrow> Clean ((d @ ''/'') @ CHR ''/'' # b) = Clean (d @ CHR ''/'' # b)"
proof -
  assume "IsAbs (d @ ''/'')"
  then have abs: "IsAbs ((d @ ''/'') @ CHR ''/'' # b)" "IsAbs (d @ CHR ''/'' # b)" by (cases d; simp)+
  have "clean_comps True ((d @ ''/'') @ CHR ''/'' # b) = clean_comps True (d @ CHR ''/'' # b)"
    by (simp add: clean_comps_def Split_append_slash)
  with abs show ?thesis by (simp add: Clean_eq)
qed

lemma Base_relative: "Base r = ''/'' \<or> \<not> IsAbs (Base r)"
proof -
  have "\<forall>c \<in> set (rev (takeWhile (\<lambda>c. c \<noteq> CHR ''/'') (rev (strip_slashes r)))). c \<noteq> CHR ''/''"
    by (auto dest: set_takeWhileD)
  then show ?thesis
    by (cases "rev (takeWhile (\<lambda>c. c \<noteq> CHR ''/'') (rev (strip_slashes r)))") (auto simp: Base_def Let_def)
qed

text \<open>The path \<open>UploadFile\<close> makes of its remote argument.\<close>

lemma upload_path:
  assumes "IsAbs r"
  shows "Base r = ''/'' \<Longrightarrow>
      NewPath (Dir r) (Base r) = Inl (Wrapf quoted_format [''/''] (Sentinel ErrNotRelative))"
    and "Base r \<noteq> ''/'' \<Longrightarrow> \<exists>q. NewPath (Dir r) (Base r) = Inr q \<and>
      Path_String q = Clean (if last r = CHR ''/'' then r @ Base r else r)"
proof -
  obtain d b where r: "r = d @ CHR ''/'' # b" "CHR ''/'' \<notin> set b" using split_last_slash [OF assms] .
  have abs: "IsAbs (d @ ''/'')" using assms r(1) by (cases d) simp_all
  then have dir: "Dir r = Clean (d @ ''/'')" "IsAbs (Dir r)"
    using Dir_Base_split(1) [OF r(2)] r(1) by simp_all
  show "NewPath (Dir r) (Base r) = Inl (Wrapf quoted_format [''/''] (Sentinel ErrNotRelative))" if "Base r = ''/''"
    using that dir(2) by (simp add: NewPath_error(2))
  assume "Base r \<noteq> ''/''"
  then have rel: "\<not> IsAbs (Base r)" using Base_relative by blast
  have "Clean (Clean (d @ ''/'') @ CHR ''/'' # Clean (Base r)) = Clean (d @ CHR ''/'' # Base r)"
    using Clean_rooted_join(1) [OF abs rel] Clean_extra_slash [OF abs] by simp
  moreover have "d @ CHR ''/'' # Base r = (if last r = CHR ''/'' then r @ Base r else r)"
  proof (cases "b = []")
    case False
    then have "Base r = b" "last r \<noteq> CHR ''/''"
      using Dir_Base_split(2) [OF r(2)] r last_in_set [of b] by (auto simp del: last_in_set)
    with r(1) show ?thesis by simp
  qed (simp add: r(1))
  ultimately show "\<exists>q. NewPath (Dir r) (Base r) = Inr q \<and>
      Path_String q = Clean (if last r = CHR ''/'' then r @ Base r else r)"
    using dir rel by (simp add: NewPath_Inr_iff Path_String_def Join_two)
qed

section \<open>Properties\<close>



text \<open>C13. Downloading a directory from two hosts with different names into the same destination
  never writes the same path: each download runs the plan of its tree below a directory of the
  host's name, and the two plans have no destination in common.\<close>

theorem Download_disjoint:
  assumes "name_ok (HostName g)" and "name_ok (HostName h)" and "HostName g \<noteq> HostName h"
    and "names_ok (Folder es)" and "names_ok (Folder us)"
    and "Sub fsl (GetFS g) (removeSlash (prefix (Src dl))) = Inr from_g"
    and "Sub fsl (GetFS h) (removeSlash (prefix (Src dl))) = Inr from_h"
    and "Stat fsl from_g (path (Src dl)) v = (Inr info_g, v1)" and "InfoIsDir info_g"
    and "Stat fsl from_h (path (Src dl)) w = (Inr info_h, w1)" and "InfoIsDir info_h"
    and "lists fsl from_g (path (Src dl)) (Folder es)" and "height (Folder es) \<le> fuel"
    and "lists fsl from_h (path (Src dl)) (Folder us)" and "height (Folder us) \<le> fuel"
  shows "\<exists>as bs. Download_Apply fuel fsl dl g v =
        run_plan fsl (TPerm dl) from_g (DirFS fsl (prefix (Dest dl))) None as v1 \<and>
      Download_Apply fuel fsl dl h w =
        run_plan fsl (TPerm dl) from_h (DirFS fsl (prefix (Dest dl))) None bs w1 \<and>
      set (targets as) \<inter> set (targets bs) = {}"
  using plans_disjoint [OF assms(1-5), of "path (Src dl)" "path (Dest dl)" "path (Src dl)"]
    copyDir_plan(1) [OF assms(12,13)] copyDir_plan(1) [OF assms(14,15)]
  by (auto simp: Download_Apply_def copyAction_Apply_def assms(6-11) simp del: plan.simps height.simps)

text \<open>C32. \<open>UploadFile\<close> with an absolute remote path uploads the local file to that path; a path
  with a trailing slash gets its last element once more, and the root is refused as not
  relative.\<close>

theorem UploadFile_dest:
  assumes "IsAbs remote" and "Abs getwd local_path = Inr a" and "IsAbs a"
  shows "if Base remote = ''/''
    then UploadFile fuel fsl getwd h local_path remote pm w =
      Some (Some (Wrapf quoted_format [''/''] (Sentinel ErrNotRelative)), w)
    else \<exists>s d. UploadFile fuel fsl getwd h local_path remote pm w =
        Upload_Apply fuel fsl \<lparr>Src = s, Dest = d, TPerm = pm\<rparr> h w \<and>
      Path_String s = a \<and>
      Path_String d = Clean (if last remote = CHR ''/'' then remote @ Base remote else remote)"
proof -
  obtain r where r: "a = CHR ''/'' # r" using assms(3) by (cases a) simp_all
  have "Clean a = a" using assms(2,3) by (auto simp: Abs_def Join_def Let_def split: if_splits sum.splits)
  moreover have "Clean (CHR ''/'' # CHR ''/'' # r) = Clean (CHR ''/'' # r)" by (simp add: Clean_eq clean_comps_def)
  ultimately have s: "NewPathFromAbs a = Inr \<lparr>prefix = ''/'', path = r\<rparr>"
      "Path_String \<lparr>prefix = ''/'', path = r\<rparr> = a"
    using r by (auto simp: NewPathFromAbs_def TrimPrefix_def HasPrefix_def Path_String_def Join_two)
  show ?thesis
  proof (cases "Base remote = ''/''")
    case True
    then show ?thesis using upload_path(1) [OF assms(1) True] s(1) assms(2) by (simp add: UploadFile_def)
  next
    case False
    from upload_path(2) [OF assms(1) False] obtain q where q: "NewPath (Dir remote) (Base remote) = Inr q"
      "Path_String q = Clean (if last remote = CHR ''/'' then remote @ Base remote else remote)" by blast
    then have "UploadFile fuel fsl getwd h local_path remote pm w =
        Upload_Apply fuel fsl \<lparr>Src = \<lparr>prefix = ''/'', path = r\<rparr>, Dest = q, TPerm = pm\<rparr> h w"
      using s(1) assms(2) by (simp add: UploadFile_def)
    with False q(2) s(2) show ?thesis by (simp only: if_False) blast
  qed
qed

text \<open>On a finite tree whose listings succeed, \<open>totalSize\<close> returns the sum of the sizes of its
  files as an \<open>int64\<close>, the exact sum whenever it is in range.\<close>

theorem totalSize_sums:
  assumes "sized fsl fsys s (Folder es)" and "height (Folder es) \<le> fuel"
  shows "\<exists>w'. totalSize fuel fsl fsys s w = Some ((wrap_int (tree_size (Folder es)), None), w')"
  using totalSize_tree(1) [OF assms] by blast

section \<open>Concrete runs\<close>

text \<open>
  Two file systems with the directory \<open>d\<close>, which has a file and an empty directory. The state
  is what is left to read, what was written, and the bytes reported; the file handles are
  \<open>True\<close> for the source and \<open>False\<close> for the destination.
\<close>

definition sample_entry :: "string \<Rightarrow> bool \<Rightarrow> 'w DirEntry" where
  "sample_entry n isdir =
     \<lparr>Name = n, IsDir = isdir, Info = (\<lambda>w. (Inr \<lparr>Size = 3, InfoIsDir = isdir\<rparr>, w))\<rparr>"

definition sample_fs :: "(bool, bool, string \<times> string \<times> int) wrfs" where
  "sample_fs =
     \<lparr>Sub = (\<lambda>f p. Inr f), DirFS = (\<lambda>p. False),
      Stat = (\<lambda>f p w. (Inr \<lparr>Size = 0, InfoIsDir = True\<rparr>, w)),
      ReadDir = (\<lambda>f p w. (Inr (if p = ''d'' then [sample_entry ''a'' False, sample_entry ''e'' True] else []), w)),
      MkdirAll = (\<lambda>f p m w. (None, w)),
      Open = (\<lambda>f p (r, out, c). (Inr True, (''abc'', out, c))),
      OpenFile = (\<lambda>f p fl m (r, out, c). (Inr False, (r, [], c))),
      Read = (\<lambda>h (r, out, c). case r of [] \<Rightarrow> (([], Some (Sentinel EOF)), (r, out, c))
        | x # xs \<Rightarrow> (([x], None), (xs, out, c))),
      is_Writer = (\<lambda>h. \<not> h),
      Write = (\<lambda>h buf (r, out, c). ((int (length buf), None), (r, out @ buf, c))),
      WriteTo = (\<lambda>h. None), ReadFrom = (\<lambda>h. None), Close = (\<lambda>h w. (None, w))\<rparr>"

abbreviation sample_tree :: "(string \<times> tree) list" where
  "sample_tree \<equiv> [(''a'', File 3), (''e'', Folder [])]"

definition sample_report :: "(string \<times> string \<times> int) ProgressFunc" where
  "sample_report n = (\<lambda>(r, out, c). (r, out, c + n))"

lemma sample_join: "Join [''d'', ''a''] = ''d/a''" "Join [''d'', ''e''] = ''d/e''"
    "Join [''o'', ''a''] = ''o/a''" "Join [''o'', ''e''] = ''o/e''"
  by code_simp+

lemma sample_lists: "lists sample_fs f ''d'' (Folder sample_tree)"
  by (simp add: sample_join) (auto simp: sample_fs_def sample_entry_def)

lemma sample_sized: "sized sample_fs f ''d'' (Folder sample_tree)"
  by (simp add: sample_join) (auto simp: sample_fs_def sample_entry_def)

lemma sample_streams: "streams 0 (Read sample_fs True) (Write sample_fs False) fst (fst \<circ> snd) (snd \<circ> snd)"
  by (auto simp: streams_def sample_fs_def split: list.splits)



lemma Download_disjoint_witness:
  "\<exists>as bs. Download_Apply 2 sample_fs \<lparr>Src = \<lparr>prefix = ''/'', path = ''d''\<rparr>, Dest = \<lparr>prefix = ''/tmp'', path = ''o''\<rparr>, TPerm = zero_Perm\<rparr>
        \<lparr>HostName = ''h1'', GetFS = True\<rparr> ([], [], 0) =
      run_plan sample_fs zero_Perm True False None as ([], [], 0) \<and>
    Download_Apply 2 sample_fs \<lparr>Src = \<lparr>prefix = ''/'', path = ''d''\<rparr>, Dest = \<lparr>prefix = ''/tmp'', path = ''o''\<rparr>, TPerm = zero_Perm\<rparr>
        \<lparr>HostName = ''h2'', GetFS = True\<rparr> ([], [], 0) =
      run_plan sample_fs zero_Perm True False None bs ([], [], 0) \<and>
    set (targets as) \<inter> set (targets bs) = {}"
proof -
  let ?dl = "\<lparr>Src = \<lparr>prefix = ''/'', path = ''d''\<rparr>, Dest = \<lparr>prefix = ''/tmp'', path = ''o''\<rparr>, TPerm = zero_Perm\<rparr>"
  let ?g = "\<lparr>HostName = ''h1'', GetFS = True\<rparr>" and ?h = "\<lparr>HostName = ''h2'', GetFS = True\<rparr>"
  have n: "name_ok (HostName ?g)" "name_ok (HostName ?h)" "HostName ?g \<noteq> HostName ?h"
    "names_ok (Folder sample_tree)" "names_ok (Folder sample_tree)"
    by (simp_all add: name_ok_def plain_def)
  have f: "Sub sample_fs (GetFS ?g) (removeSlash (prefix (Src ?dl))) = Inr True"
    "Sub sample_fs (GetFS ?h) (removeSlash (prefix (Src ?dl))) = Inr True"
    by (simp_all add: sample_fs_def)
  have s: "Stat sample_fs True (path (Src ?dl)) ([], [], 0) = (Inr \<lparr>Size = 0, InfoIsDir = True\<rparr>, ([], [], 0))"
    "InfoIsDir \<lparr>Size = 0, InfoIsDir = True\<rparr>"
    by (simp_all add: sample_fs_def)
  have l: "lists sample_fs True (path (Src ?dl)) (Folder sample_tree)" "height (Folder sample_tree) \<le> 2"
    using sample_lists [of True] by simp_all
  from Download_disjoint [OF n f s s l l] show ?thesis by (simp add: sample_fs_def)
qed

lemma UploadFile_dest_witness:
  "\<exists>s d. UploadFile 0 sample_fs (Inr ''/home'') \<lparr>HostName = ''h'', GetFS = True\<rparr> ''f'' ''/srv/x'' zero_Perm ([], [], 0) =
      Upload_Apply 0 sample_fs \<lparr>Src = s, Dest = d, TPerm = zero_Perm\<rparr> \<lparr>HostName = ''h'', GetFS = True\<rparr> ([], [], 0) \<and>
    Path_String s = ''/home/f'' \<and> Path_String d = ''/srv/x''"
proof -
  have "IsAbs ''/srv/x''" "Abs (Inr ''/home'') ''f'' = Inr ''/home/f''" "IsAbs ''/home/f''"
    and c: "Base ''/srv/x'' \<noteq> ''/''" "Clean ''/srv/x'' = ''/srv/x''" "last ''/srv/x'' \<noteq> CHR ''/''"
    by code_simp+
  from UploadFile_dest [OF this(1-3), of 0 sample_fs "\<lparr>HostName = ''h'', GetFS = True\<rparr>" zero_Perm "([], [], 0)"]
  show ?thesis by (simp only: c if_False)
qed

lemma totalSize_sums_witness:
  "\<exists>w'. totalSize 2 sample_fs True ''d'' ([], [], 0) = Some ((3, None), w')"
proof -
  have "height (Folder sample_tree) \<le> 2" by simp
  from totalSize_sums [OF sample_sized this, of True "([], [], 0)"] show ?thesis by (simp add: in_int_def)
qed

end
