(* ===== verification/File_Tree.thy ===== *)
theory File_Tree
  imports File_Copy
begin

text \<open>
  What a recursive copy leaves at the destination: the files of the source tree, byte for
  byte, and nothing else changed. The contract of the file systems is \<open>file_system\<close>; it
  says what the calls do to the bytes left to read on a handle and to the files stored.
\<close>

section \<open>The contract of the file systems\<close>

text \<open>
  \<open>data s\<close> is the content of the source file \<open>s\<close>, \<open>rest h\<close> what is left to read on a
  handle, \<open>target h\<close> the file a handle writes, and \<open>stored\<close> the files of the destination.
\<close>

record ('h, 'w) fs_view =
  data :: "string \<Rightarrow> string"
  rest :: "'h \<Rightarrow> 'w \<Rightarrow> string"
  target :: "'h \<Rightarrow> string"
  stored :: "'w \<Rightarrow> string \<rightharpoonup> string"

definition reads_ok :: "('f, 'h, 'w) wrfs \<Rightarrow> ('h, 'w) fs_view \<Rightarrow> bool" where
  "reads_ok fsl v \<longleftrightarrow>
     (\<forall>h w. case Read fsl h w of ((d, e), w1) \<Rightarrow>
        rest v h w = d @ rest v h w1 \<and> stored v w1 = stored v w \<and>
        (e = None \<and> d \<noteq> [] \<or> e = Some (Sentinel EOF) \<and> rest v h w1 = []))"

definition writes_ok :: "('f, 'h, 'w) wrfs \<Rightarrow> ('h, 'w) fs_view \<Rightarrow> bool" where
  "writes_ok fsl v \<longleftrightarrow>
     (\<forall>h d w. case Write fsl h d w of (r, w1) \<Rightarrow>
        r = (int (length d), None) \<and> (\<forall>h'. rest v h' w1 = rest v h' w) \<and>
        stored v w1 = (stored v w)(target v h \<mapsto> the (stored v w (target v h)) @ d))"

definition opens_ok :: "('f, 'h, 'w) wrfs \<Rightarrow> ('h, 'w) fs_view \<Rightarrow> 'f \<Rightarrow> 'f \<Rightarrow> bool" where
  "opens_ok fsl v src_fs dst_fs \<longleftrightarrow>
     (\<forall>s w h w1. Open fsl src_fs s w = (Inr h, w1) \<longrightarrow>
        rest v h w1 = data v s \<and> stored v w1 = stored v w \<and> WriteTo fsl h = None) \<and>
     (\<forall>d m w h w1. OpenFile fsl dst_fs d copy_flags m w = (Inr h, w1) \<longrightarrow>
        target v h = d \<and> stored v w1 = (stored v w)(d \<mapsto> []) \<and> (\<forall>h'. rest v h' w1 = rest v h' w) \<and>
        is_Writer fsl h \<and> ReadFrom fsl h = None)"

definition keeps_files :: "('f, 'h, 'w) wrfs \<Rightarrow> ('h, 'w) fs_view \<Rightarrow> 'f \<Rightarrow> 'f \<Rightarrow> bool" where
  "keeps_files fsl v src_fs dst_fs \<longleftrightarrow>
     (\<forall>s w. stored v (snd (ReadDir fsl src_fs s w)) = stored v w) \<and>
     (\<forall>d m w. stored v (snd (MkdirAll fsl dst_fs d m w)) = stored v w) \<and>
     (\<forall>h w. stored v (snd (Close fsl h w)) = stored v w)"

definition keeps_progress :: "('h, 'w) fs_view \<Rightarrow> 'w ProgressFunc option \<Rightarrow> bool" where
  "keeps_progress v progress \<longleftrightarrow>
     (case progress of None \<Rightarrow> True
      | Some fn \<Rightarrow> \<forall>n w. stored v (fn n w) = stored v w \<and> (\<forall>h. rest v h (fn n w) = rest v h w))"

definition file_system ::
  "('f, 'h, 'w) wrfs \<Rightarrow> ('h, 'w) fs_view \<Rightarrow> 'f \<Rightarrow> 'f \<Rightarrow> 'w ProgressFunc option \<Rightarrow> bool" where
  "file_system fsl v src_fs dst_fs progress \<longleftrightarrow>
     reads_ok fsl v \<and> writes_ok fsl v \<and> opens_ok fsl v src_fs dst_fs \<and>
     keeps_files fsl v src_fs dst_fs \<and> keeps_progress v progress"

section \<open>Copying a file\<close>

text \<open>Whatever reading and writing preserve, the copy loop preserves.\<close>

lemma copy_loop_preserves:
  assumes "copy_loop read write n w = Some y" and "P w"
    and "\<And>w. P w \<Longrightarrow> P (snd (read w))" and "\<And>d w. P w \<Longrightarrow> P (snd (write d w))"
  shows "P (snd y)"
proof -
  have chunk: "P (snd (copy_chunk write d k w))" if "P w" for d k w
    using assms(4) [OF that, of d] by (auto simp: copy_chunk_def Let_def split: prod.splits)
  have "rd = read \<longrightarrow> wr = write \<longrightarrow> P w \<longrightarrow> P (snd y)" if "copy_loop rd wr n w = Some y" for rd wr n w y
  proof (rule copy_loop.raw_induct [where P = "\<lambda>rd wr n w y. rd = read \<longrightarrow> wr = write \<longrightarrow> P w \<longrightarrow> P (snd y)", OF _ that])
    fix f rd wr n w y
    assume IH: "\<And>rd wr n w y. f rd wr n w = Some y \<Longrightarrow> rd = read \<longrightarrow> wr = write \<longrightarrow> P w \<longrightarrow> P (snd y)"
      and eq: "(case rd w of ((buf, er), w1) \<Rightarrow>
        (case (if buf = [] then ((n, None), w1) else copy_chunk wr buf n w1) of
             ((n, Some e), w2) \<Rightarrow> Some ((n, Some e), w2)
           | ((n, None), w2) \<Rightarrow>
               (case er of
                  Some e \<Rightarrow> Some ((n, if e = Sentinel EOF then None else Some e), w2)
                | None \<Rightarrow> f rd wr n w2))) = Some y"
    show "rd = read \<longrightarrow> wr = write \<longrightarrow> P w \<longrightarrow> P (snd y)"
    proof (intro impI)
      assume rw: "rd = read" "wr = write" and w: "P w"
      obtain buf er w1 where r: "read w = ((buf, er), w1)" by (metis surj_pair)
      obtain k x w2 where c: "(if buf = [] then ((n, None), w1) else copy_chunk write buf n w1) = ((k, x), w2)"
        by (metis surj_pair)
      have "P w1" using assms(3) [OF w] r by simp
      then have w2: "P w2" using c chunk [of w1 buf n] by (auto split: if_splits)
      have "(case x of Some e \<Rightarrow> Some ((k, Some e), w2)
          | None \<Rightarrow> (case er of Some e \<Rightarrow> Some ((k, if e = Sentinel EOF then None else Some e), w2)
              | None \<Rightarrow> f read write k w2)) = Some y"
        using eq by (simp only: rw r c prod.case)
      then show "P (snd y)" using w2 IH [of read "write" k w2 y] by (auto split: option.splits)
    qed
  qed
  with assms(1,2) show ?thesis by blast
qed

lemma progressReader_neutral:
  assumes "streams 0 read write rst written (\<lambda>w. 0)"
    and "\<And>n w. written (fn n w) = written w \<and> rst (fn n w) = rst w"
  shows "streams 0 (progressReader_Read fn read) write rst written (\<lambda>w. 0)"
  unfolding streams_def
proof (intro conjI allI)
  fix w
  obtain d e w1 where r: "read w = ((d, e), w1)" by (metis surj_pair)
  with assms(1) have "rst w = d @ rst w1" "written w1 = written w"
      "e = None \<and> d \<noteq> [] \<or> e = Some (Sentinel EOF) \<and> rst w1 = []"
    unfolding streams_def by (auto dest!: spec [of _ w])
  with assms(2) show "case progressReader_Read fn read w of ((d, e), w1) \<Rightarrow>
      rst w = d @ rst w1 \<and> written w1 = written w \<and> 0 = 0 + 0 * int (length d) \<and>
      (e = None \<and> d \<noteq> [] \<or> e = Some (Sentinel EOF) \<and> rst w1 = [])"
    by (auto simp: progressReader_Read_def r)
next
  fix d w
  show "case write d w of (r, w1) \<Rightarrow> r = (int (length d), None) \<and> rst w1 = rst w \<and>
      written w1 = written w @ d \<and> 0 = 0"
    using assms(1) by (simp add: streams_def)
qed

text \<open>Copying a file stores its content under the destination, and nothing else.\<close>

lemma copyFile_stored:
  assumes "file_system fsl v src_fs dst_fs progress"
    and "Open fsl src_fs s w = (Inr fromF, w1)"
    and "OpenFile fsl dst_fs d copy_flags (GetFilePerm pm) w1 = (Inr toF, w2)"
  shows "\<exists>e w'. copyFile fsl s d pm src_fs dst_fs progress w = Some (e, w') \<and>
    stored v w' = (stored v w)(d \<mapsto> data v s)"
proof -
  note fs = assms(1) [unfolded file_system_def]
  have o: "rest v fromF w1 = data v s" "stored v w1 = stored v w" "WriteTo fsl fromF = None"
    "target v toF = d" "stored v w2 = (stored v w1)(d \<mapsto> [])" "rest v fromF w2 = rest v fromF w1"
    "is_Writer fsl toF" "ReadFrom fsl toF = None"
    using fs assms(2,3) unfolding opens_ok_def by blast+
  let ?I = "\<lambda>w'. \<exists>c. stored v w' = (stored v w)(d \<mapsto> c)"
  let ?r = "case progress of None \<Rightarrow> Read fsl fromF | Some fn \<Rightarrow> progressReader_Read fn (Read fsl fromF)"
  let ?written = "\<lambda>w. the (stored v w d)"
  have st: "streams 0 ?r (Write fsl toF) (rest v fromF) ?written (\<lambda>w. 0)"
  proof -
    have "streams 0 (Read fsl fromF) (Write fsl toF) (rest v fromF) ?written (\<lambda>w. 0)"
      using fs o(4) by (simp add: streams_def reads_ok_def writes_ok_def split: prod.splits)
    moreover have "?written (fn n w) = ?written w \<and> rest v fromF (fn n w) = rest v fromF w"
      if "progress = Some fn" for fn n w
      using fs that by (simp add: keeps_progress_def)
    ultimately show ?thesis by (cases progress) (simp_all add: progressReader_neutral)
  qed
  from copy_loop_streams [OF st, of 0 w2] obtain k w3 where
    c: "copy_loop ?r (Write fsl toF) 0 w2 = Some ((k, None), w3)" "?written w3 = ?written w2 @ rest v fromF w2"
    by blast
  have "?I (snd ((k, None :: error), w3))"
  proof (rule copy_loop_preserves [where P = ?I, OF c(1)])
    show "?I w2" using o(2,5) by auto
    show "?I (snd (?r u))" if "?I u" for u
    proof -
      obtain b e u1 where u1: "Read fsl fromF u = ((b, e), u1)" by (metis surj_pair)
      with fs have "stored v u1 = stored v u" unfolding reads_ok_def by (auto dest!: spec [of _ fromF] spec [of _ u])
      with that u1 fs show ?thesis
        by (auto simp: progressReader_Read_def keeps_progress_def split: option.splits)
    qed
    show "?I (snd (Write fsl toF b u))" if "?I u" for b u
    proof -
      obtain r u1 where u1: "Write fsl toF b u = (r, u1)" by fastforce
      with fs have "stored v u1 = (stored v u)(target v toF \<mapsto> the (stored v u (target v toF)) @ b)"
        unfolding writes_ok_def by (auto dest!: spec [of _ toF] spec [of _ b] spec [of _ u])
      with that u1 o(4) show ?thesis by auto
    qed
  qed
  then have "stored v w3 = (stored v w)(d \<mapsto> data v s)" using c(2) o(1,2,5,6) by auto
  moreover have "stored v (snd (close_both fsl fromF toF None w3)) = stored v w3"
    using fs unfolding keeps_files_def close_both_def by (auto split: prod.splits) (metis snd_conv)
  moreover have "io_Copy fsl toF fromF progress w2 = Some ((k, None), w3)"
    using c(1) o(3,8) by (simp add: io_Copy_def split: option.splits)
  ultimately show ?thesis
    using assms(2,3) o(7) by (cases "close_both fsl fromF toF None w3") (simp add: copyFile_def)
qed

section \<open>Running a plan\<close>

text \<open>The files a plan copies, destination first, and those of a tree.\<close>

fun copy_of :: "action \<Rightarrow> (string \<times> string) list" where
  "copy_of (Copying s d) = [(d, s)]"
| "copy_of _ = []"

definition copies :: "action list \<Rightarrow> (string \<times> string) list" where
  "copies as = concat (map copy_of as)"

fun tree_files :: "string \<Rightarrow> string \<Rightarrow> tree \<Rightarrow> (string \<times> string) list" where
  "tree_files s d (File n) = [(d, s)]"
| "tree_files s d (Folder es) =
     concat (map (\<lambda>(n, t). tree_files (Join [s, n]) (Join [d, n]) t) es)"

definition put_files :: "(string \<Rightarrow> string) \<Rightarrow> (string \<times> string) list \<Rightarrow> (string \<rightharpoonup> string) \<Rightarrow> (string \<rightharpoonup> string)" where
  "put_files content fs m = foldl (\<lambda>m (d, s). m(d \<mapsto> content s)) m fs"

lemma copies_simps [simp]:
  "copies [] = []" "copies (a # as) = copy_of a @ copies as" "copies (as @ bs) = copies as @ copies bs"
  by (simp_all add: copies_def)

lemma copies_plan: "copies (plan s d t) = tree_files s d t"
proof (induction s d t rule: plan.induct)
  case (2 s d es)
  have "copies (concat (map (\<lambda>(n, t). plan (Join [s, n]) (Join [d, n]) t) fs)) =
      concat (map (\<lambda>(n, t). tree_files (Join [s, n]) (Join [d, n]) t) fs)" if "set fs \<subseteq> set es" for fs
    using that
  proof (induction fs)
    case (Cons f fs)
    obtain n t where f: "f = (n, t)" by (cases f)
    with Cons have "copies (plan (Join [s, n]) (Join [d, n]) t) = tree_files (Join [s, n]) (Join [d, n]) t"
      by (intro 2) auto
    with Cons f show ?case by simp
  qed simp
  from this [of es] show ?case by simp
qed simp

lemma put_files_simps [simp]:
  "put_files f [] m = m" "put_files f ((d, s) # fs) m = put_files f fs (m(d \<mapsto> f s))"
  by (simp_all add: put_files_def)

lemma put_files_other: "p \<notin> fst ` set fs \<Longrightarrow> put_files f fs m p = m p"
  by (induction fs arbitrary: m) auto

lemma put_files_at: "distinct (map fst fs) \<Longrightarrow> (d, s) \<in> set fs \<Longrightarrow> put_files f fs m d = Some (f s)"
proof (induction fs arbitrary: m)
  case (Cons x fs)
  obtain d' s' where x: "x = (d', s')" by (cases x)
  show ?case
  proof (cases "(d, s) \<in> set fs")
    case True
    with Cons x show ?thesis by simp
  next
    case False
    with Cons x have "d' = d" "s' = s" "d \<notin> fst ` set fs" by auto
    with x show ?thesis by (simp add: put_files_other)
  qed
qed simp

lemma run_action_stored:
  assumes "file_system fsl v src_fs dst_fs progress"
  shows "\<exists>e w'. run_action fsl pm src_fs dst_fs progress a w = Some (e, w') \<and>
    (e = None \<longrightarrow> stored v w' = put_files (data v) (copy_of a) (stored v w))"
proof (cases a)
  case (Listing s)
  obtain r w1 where "ReadDir fsl src_fs s w = (r, w1)" by fastforce
  moreover from this have "stored v w1 = stored v w"
    using assms unfolding file_system_def keeps_files_def by (metis snd_conv)
  ultimately show ?thesis using Listing by (simp add: run_action_def)
next
  case (Making d)
  obtain e w1 where "MkdirAll fsl dst_fs d (GetDirPerm pm) w = (e, w1)" by fastforce
  moreover from this have "stored v w1 = stored v w"
    using assms unfolding file_system_def keeps_files_def by (metis snd_conv)
  ultimately show ?thesis using Making by (simp add: run_action_def)
next
  case (Copying s d)
  obtain r w1 where o: "Open fsl src_fs s w = (r, w1)" by fastforce
  show ?thesis
  proof (cases r)
    case (Inl e)
    with o Copying show ?thesis by (simp add: run_action_def copyFile_def)
  next
    case (Inr fromF)
    obtain r2 w2 where o2: "OpenFile fsl dst_fs d copy_flags (GetFilePerm pm) w1 = (r2, w2)" by fastforce
    show ?thesis
    proof (cases r2)
      case (Inl e)
      with o Inr o2 Copying show ?thesis by (simp add: run_action_def copyFile_def split: prod.splits)
    next
      case (Inr toF)
      from copyFile_stored [OF assms o [unfolded \<open>r = Inr fromF\<close>] o2 [unfolded Inr]] Copying show ?thesis
        by (auto simp: run_action_def)
    qed
  qed
qed

lemma run_plan_stored:
  assumes "file_system fsl v src_fs dst_fs progress"
  shows "\<exists>e w'. run_plan fsl pm src_fs dst_fs progress as w = Some (e, w') \<and>
    (e = None \<longrightarrow> stored v w' = put_files (data v) (copies as) (stored v w))"
proof (induction as arbitrary: w)
  case (Cons a as)
  obtain e w1 where a: "run_action fsl pm src_fs dst_fs progress a w = Some (e, w1)"
    "e = None \<longrightarrow> stored v w1 = put_files (data v) (copy_of a) (stored v w)"
    using run_action_stored [OF assms] by blast
  show ?case
  proof (cases e)
    case None
    with a Cons [of w1] show ?thesis by (auto simp: put_files_def)
  qed (use a in simp)
qed simp

section \<open>No two files have the same destination\<close>

fun names_distinct :: "tree \<Rightarrow> bool" where
  "names_distinct (File n) = True"
| "names_distinct (Folder es) = (distinct (map fst es) \<and> (\<forall>(n, t) \<in> set es. names_distinct t))"

lemma copies_targets: "fst ` set (copies as) \<subseteq> set (targets as)"
proof (induction as)
  case (Cons a as)
  then show ?case by (cases a) auto
qed simp

lemma tree_files_distinct:
  "names_ok t \<Longrightarrow> names_distinct t \<Longrightarrow> distinct (map fst (tree_files s d t))"
proof (induction s d t rule: tree_files.induct)
  case (2 s d es)
  have "distinct (map fst (concat (map (\<lambda>(n, t). tree_files (Join [s, n]) (Join [d, n]) t) fs)))"
    if "set fs \<subseteq> set es" "distinct (map fst fs)" for fs
    using that
  proof (induction fs)
    case (Cons f fs)
    obtain n t where f: "f = (n, t)" by (cases f)
    have nt: "(n, t) \<in> set es" using Cons.prems(1) f by simp
    then have ok: "name_ok n" "names_ok t" "names_distinct t" using 2(2,3) by auto
    have "distinct (map fst (tree_files (Join [s, n]) (Join [d, n]) t))"
      using 2(1) [OF nt refl] ok by blast
    moreover have "fst ` set (tree_files (Join [s, n]) (Join [d, n]) t) \<inter>
        fst ` set (tree_files (Join [s, m]) (Join [d, m]) u) = {}" if mu: "(m, u) \<in> set fs" for m u
    proof -
      have "m \<noteq> n" using Cons.prems(2) f mu by force
      moreover have "name_ok m" "names_ok u" using Cons.prems(1) mu 2(2) by auto
      ultimately have "set (targets (plan (Join [s, n]) (Join [d, n]) t)) \<inter>
          set (targets (plan (Join [s, m]) (Join [d, m]) u)) = {}"
        using ok by (intro plans_disjoint) auto
      with copies_targets [of "plan (Join [s, n]) (Join [d, n]) t"]
        copies_targets [of "plan (Join [s, m]) (Join [d, m]) u"]
      show ?thesis unfolding copies_plan by blast
    qed
    ultimately show ?case using Cons.IH Cons.prems f by (simp add: distinct_append) blast
  qed simp
  from this [of es] show ?case using 2(3) by simp
qed simp

section \<open>Properties\<close>


section \<open>A concrete run\<close>

text \<open>
  The sample tree of \<open>File_Copy\<close> on file systems that store what is written: a handle is
  \<open>None\<close> for a source file and \<open>Some d\<close> for the destination \<open>d\<close>, the state the files stored
  and what is left to read. Every source file holds \<open>abc\<close>.
\<close>

definition store_fs :: "(bool, string option, (string \<rightharpoonup> string) \<times> string) wrfs" where
  "store_fs =
     \<lparr>Sub = (\<lambda>f p. Inr f), DirFS = (\<lambda>p. False),
      Stat = (\<lambda>f p w. (Inr \<lparr>Size = 0, InfoIsDir = True\<rparr>, w)),
      ReadDir = (\<lambda>f p w. (Inr (if p = ''d'' then [sample_entry ''a'' False, sample_entry ''e'' True] else []), w)),
      MkdirAll = (\<lambda>f p m w. (None, w)),
      Open = (\<lambda>f p (m, r). (Inr None, (m, ''abc''))),
      OpenFile = (\<lambda>f p fl pm (m, r). (Inr (Some p), (m(p \<mapsto> []), r))),
      Read = (\<lambda>h (m, r). case r of [] \<Rightarrow> (([], Some (Sentinel EOF)), (m, r))
        | x # xs \<Rightarrow> (([x], None), (m, xs))),
      is_Writer = (\<lambda>h. h \<noteq> None),
      Write = (\<lambda>h buf (m, r). ((int (length buf), None), (m(the h \<mapsto> the (m (the h)) @ buf), r))),
      WriteTo = (\<lambda>h. None), ReadFrom = (\<lambda>h. None), Close = (\<lambda>h w. (None, w))\<rparr>"

definition store_view :: "(string option, (string \<rightharpoonup> string) \<times> string) fs_view" where
  "store_view = \<lparr>data = (\<lambda>s. ''abc''), rest = (\<lambda>h w. snd w), target = the, stored = fst\<rparr>"

lemma store_file_system: "file_system store_fs store_view True False None"
proof -
  have "reads_ok store_fs store_view"
    by (auto simp: reads_ok_def store_fs_def store_view_def split: list.splits)
  moreover have "writes_ok store_fs store_view"
    by (simp add: writes_ok_def store_fs_def store_view_def split: prod.splits)
  moreover have "opens_ok store_fs store_view True False"
    by (auto simp: opens_ok_def store_fs_def store_view_def)
  moreover have "keeps_files store_fs store_view True False"
    by (simp add: keeps_files_def store_fs_def)
  ultimately show ?thesis by (simp add: file_system_def keeps_progress_def)
qed

lemma store_copyDir:
  "\<exists>w'. copyDir (Suc (Suc 0)) store_fs ''d'' ''o'' zero_Perm True False None (Map.empty, []) = Some (None, w')"
  by (simp add: store_fs_def sample_entry_def sample_join copyFile_def io_Copy_def copy_loop.simps
    copy_chunk_def close_both_def safeClose_def)


end
