(* ===== verification/Sftp_Copy.thy ===== *)
theory Sftp_Copy
  imports Sftp_Fs File_Tree
begin

text \<open>
  Downloads over sftp: fs.go with the file system of sftpfs.go as the source. What a download
  can do to the server is bounded by the names \<open>fullName\<close> accepts, whatever names the server
  lists. The file systems that \<open>Sub\<close> makes are those of github.com/relab/wrfs; of them the
  model knows that they reach the server through the calls of the wrapper only.
\<close>

section \<open>What a call keeps\<close>

definition keeps :: "('w \<Rightarrow> bool) \<Rightarrow> ('w \<Rightarrow> 'a \<times> 'w) \<Rightarrow> bool" where
  "keeps P f \<longleftrightarrow> (\<forall>w. P w \<longrightarrow> P (snd (f w)))"

lemma keepsD: "keeps P f \<Longrightarrow> f w = (x, w') \<Longrightarrow> P w \<Longrightarrow> P w'"
  by (auto simp: keeps_def dest: spec [of _ w])

text \<open>The calls a copy makes on its source, and all the others it makes.\<close>

definition source_keeps :: "('w \<Rightarrow> bool) \<Rightarrow> ('f, 'h, 'w) wrfs \<Rightarrow> 'f \<Rightarrow> bool" where
  "source_keeps P fsl f \<longleftrightarrow>
     (\<forall>p. keeps P (File_Copy.ReadDir fsl f p) \<and> keeps P (File_Copy.Open fsl f p) \<and>
       keeps P (File_Copy.Stat fsl f p))"

definition dest_keeps ::
  "('w \<Rightarrow> bool) \<Rightarrow> ('f, 'h, 'w) wrfs \<Rightarrow> 'f \<Rightarrow> 'w ProgressFunc option \<Rightarrow> bool" where
  "dest_keeps P fsl f progress \<longleftrightarrow>
     (\<forall>d m. keeps P (MkdirAll fsl f d m)) \<and>
     (\<forall>d fl m. keeps P (File_Copy.OpenFile fsl f d fl m)) \<and>
     (\<forall>h. keeps P (Read fsl h) \<and> keeps P (File_Copy.Close fsl h)) \<and>
     (\<forall>h b. keeps P (Write fsl h b)) \<and>
     (\<forall>h wt h'. WriteTo fsl h = Some wt \<longrightarrow> keeps P (wt h')) \<and>
     (\<forall>h rf r. ReadFrom fsl h = Some rf \<longrightarrow> keeps P r \<longrightarrow> keeps P (rf r)) \<and>
     (\<forall>fn n. progress = Some fn \<longrightarrow> keeps P (\<lambda>w. ((), fn n w)))"

lemma io_Copy_keeps:
  assumes "dest_keeps P fsl f progress" and "io_Copy fsl toF fromF progress w = Some (r, w')" and "P w"
  shows "P w'"
proof -
  let ?r = "case progress of None \<Rightarrow> Read fsl fromF | Some fn \<Rightarrow> progressReader_Read fn (Read fsl fromF)"
  note d = assms(1) [unfolded dest_keeps_def]
  have read: "keeps P ?r"
    using d by (auto simp: keeps_def progressReader_Read_def split: option.splits prod.splits) (metis snd_conv)+
  have loop: "P (snd y)" if "copy_loop ?r (Write fsl toF) 0 w = Some y" for y
  proof (rule copy_loop_preserves [where P = P, OF that assms(3)])
    show "P (snd (?r u))" if "P u" for u using read that by (simp only: keeps_def)
    show "P (snd (Write fsl toF b u))" if "P u" for b u using d that by (simp add: keeps_def)
  qed
  have gen: "P w'" if "(case ReadFrom fsl toF of Some rf \<Rightarrow> Some (rf ?r w)
      | None \<Rightarrow> copy_loop ?r (Write fsl toF) 0 w) = Some (r, w')"
  proof (cases "ReadFrom fsl toF")
    case None
    with that loop show ?thesis by fastforce
  next
    case (Some rf)
    with d read have "keeps P (rf ?r)" by blast
    with that Some assms(3) show ?thesis by (auto dest: keepsD)
  qed
  show ?thesis
  proof (cases "progress = None \<and> WriteTo fsl fromF \<noteq> None")
    case True
    then obtain wt where wt: "progress = None" "WriteTo fsl fromF = Some wt" by blast
    with d have "keeps P (wt toF)" by blast
    with wt assms(2,3) show ?thesis by (auto simp: io_Copy_def dest: keepsD)
  next
    case False
    with assms(2) show ?thesis
      by (intro gen) (auto simp: io_Copy_def Let_def split: option.splits)
  qed
qed

lemma close_both_keeps:
  assumes "dest_keeps P fsl f progress" and "close_both fsl fromF toF e w = (r, w')" and "P w"
  shows "P w'"
proof -
  have c: "keeps P (File_Copy.Close fsl h)" for h using assms(1) unfolding dest_keeps_def by blast
  from assms(2,3) show ?thesis
    by (auto simp: close_both_def split: prod.splits dest!: keepsD [OF c])
qed

lemma copyFile_keeps:
  assumes "source_keeps P fsl src_fs" and "dest_keeps P fsl dst_fs progress"
    and "copyFile fsl s d pm src_fs dst_fs progress w = Some (e, w')" and "P w"
  shows "P w'"
proof -
  have o: "keeps P (File_Copy.Open fsl src_fs s)" using assms(1) unfolding source_keeps_def by blast
  have f: "keeps P (File_Copy.OpenFile fsl dst_fs d copy_flags (GetFilePerm pm))"
    and c: "keeps P (File_Copy.Close fsl h)" for h
    using assms(2) unfolding dest_keeps_def by blast+
  from assms(3,4) show ?thesis
    by (auto simp: copyFile_def split: prod.splits sum.splits option.splits if_splits
        dest!: keepsD [OF o] keepsD [OF f] keepsD [OF c] io_Copy_keeps [OF assms(2)]
          close_both_keeps [OF assms(2)])
qed

lemma copyDir_keeps:
  assumes "source_keeps P fsl src_fs" and "dest_keeps P fsl dst_fs progress"
  shows "copyDir n fsl s d pm src_fs dst_fs progress w = Some (e, w') \<Longrightarrow> P w \<Longrightarrow> P w'"
    and "copy_entries n fsl s d pm src_fs dst_fs progress es w = Some (e, w') \<Longrightarrow> P w \<Longrightarrow> P w'"
  using assms
proof (induction n fsl s d pm src_fs dst_fs progress w and n fsl s d pm src_fs dst_fs progress es w
    arbitrary: e w' and e w' rule: copyDir_copy_entries.induct)
  case (2 n fsl s d pm src_fs dst_fs progress w)
  have l: "keeps P (File_Copy.ReadDir fsl src_fs s)" using 2(4) unfolding source_keeps_def by blast
  have m: "keeps P (MkdirAll fsl dst_fs d (GetDirPerm pm))" using 2(5) unfolding dest_keeps_def by blast
  obtain r w1 where r: "File_Copy.ReadDir fsl src_fs s w = (r, w1)" by fastforce
  then have w1: "P w1" using keepsD [OF l] 2(3) by blast
  show ?case
  proof (cases r)
    case (Inr files)
    obtain e2 w2 where e2: "MkdirAll fsl dst_fs d (GetDirPerm pm) w1 = (e2, w2)" by fastforce
    then have w2: "P w2" using keepsD [OF m] w1 by blast
    show ?thesis
    proof (cases e2)
      case None
      with 2(2) r Inr e2 have "copy_entries n fsl s d pm src_fs dst_fs progress files w2 = Some (e, w')" by simp
      with 2(1) [OF r [symmetric] Inr e2 [symmetric] None] w2 2(4,5) show ?thesis by blast
    qed (use 2(2) r Inr e2 w2 in simp)
  qed (use 2(2) r w1 in simp)
next
  case (4 n fsl s d pm src_fs dst_fs progress info es w)
  obtain e1 w1 where first: "(if IsDir info
      then copyDir n fsl (Join [s, Name info]) (Join [d, Name info]) pm src_fs dst_fs progress w
      else copyFile fsl (Join [s, Name info]) (Join [d, Name info]) pm src_fs dst_fs progress w) = Some (e1, w1)"
    using 4(3) by (auto simp del: copyDir.simps split: option.splits)
  have w1: "P w1"
    using first 4(1) [OF _ _ 4(4-6)] copyFile_keeps [OF 4(5,6) _ 4(4)] by (auto split: if_splits)
  show ?case
  proof (cases e1)
    case None
    with 4(3) first have "copy_entries n fsl s d pm src_fs dst_fs progress es w1 = Some (e, w')" by simp
    with 4(2) [OF first [unfolded None] refl refl] w1 4(5,6) show ?thesis by blast
  qed (use 4(3) first w1 in simp)
qed auto

section \<open>The sftp file system as the source\<close>

text \<open>
  \<open>reaches fsl f s\<close>: a call of the file system \<open>f\<close> either leaves the state alone or changes
  it as a call of the wrapper \<open>s\<close> does. This holds of the wrapper and of what \<open>Sub\<close> makes of
  it. \<open>root_keeps\<close>: \<open>P\<close> survives the calls of the client under the root of \<open>s\<close> that read.
\<close>

definition reaches :: "('f, 'h, 'w) wrfs \<Rightarrow> 'f \<Rightarrow> ('h, 'w) sftpFS \<Rightarrow> bool" where
  "reaches fsl f s \<longleftrightarrow>
     (\<forall>p w. snd (File_Copy.Open fsl f p w) \<in> insert w {snd (Sftp_Fs.Open s q w) | q. True}) \<and>
     (\<forall>p w. snd (File_Copy.Stat fsl f p w) \<in> insert w {snd (Sftp_Fs.Stat s q w) | q. True}) \<and>
     (\<forall>p w. snd (File_Copy.ReadDir fsl f p w) \<in> insert w {snd (Sftp_Fs.ReadDir s q w) | q. True})"

definition root_keeps :: "('w \<Rightarrow> bool) \<Rightarrow> ('h, 'w) sftpFS \<Rightarrow> bool" where
  "root_keeps P s \<longleftrightarrow>
     (\<forall>name full. ValidPath (client s) name \<longrightarrow> full = sftpFS.prefix s @ ''/'' @ name \<longrightarrow>
        keeps P (COpen (client s) full) \<and> keeps P (CStat (client s) full) \<and>
        keeps P (CReadDir (client s) full))"

lemma guarded_keeps:
  assumes "\<And>full. x = Inr full \<Longrightarrow> keeps P (call full)"
  shows "keeps P (\<lambda>w. case x of Inl e \<Rightarrow> (Inl e, w)
    | Inr full \<Rightarrow> (case call full w of (Inl e, w1) \<Rightarrow> (Inl (f e), w1) | (Inr r, w1) \<Rightarrow> (Inr (g r), w1)))"
proof (cases x)
  case (Inr full)
  show ?thesis unfolding keeps_def
  proof (intro allI impI)
    fix w assume "P w"
    obtain r w1 where r: "call full w = (r, w1)" by fastforce
    with assms [OF Inr] \<open>P w\<close> have "P w1" by (blast dest: keepsD)
    with Inr r show "P (snd (case x of Inl e \<Rightarrow> (Inl e, w) | Inr full \<Rightarrow> (case call full w of
        (Inl e, w1) \<Rightarrow> (Inl (f e), w1) | (Inr r, w1) \<Rightarrow> (Inr (g r), w1))))"
      by (cases r) simp_all
  qed
qed (simp add: keeps_def)

lemma wrapper_keeps:
  assumes "root_keeps P s"
  shows "keeps P (Sftp_Fs.Open s q)" and "keeps P (Sftp_Fs.Stat s q)" and "keeps P (Sftp_Fs.ReadDir s q)"
proof -
  have "keeps P (COpen (client s) full)" "keeps P (CStat (client s) full)" "keeps P (CReadDir (client s) full)"
    if "fullName s op q = Inr full" for op full
    using assms that by (auto simp: root_keeps_def fullName_def split: if_splits)
  note c = this
  show "keeps P (Sftp_Fs.Open s q)"
    unfolding Sftp_Fs.Open_def [abs_def] by (rule guarded_keeps) (rule c(1))
  show "keeps P (Sftp_Fs.Stat s q)"
    unfolding Sftp_Fs.Stat_def [abs_def] by (rule guarded_keeps) (rule c(2))
  show "keeps P (Sftp_Fs.ReadDir s q)"
    unfolding Sftp_Fs.ReadDir_def [abs_def] by (rule guarded_keeps) (rule c(3))
qed

lemma keeps_within:
  assumes "\<And>w. snd (f w) \<in> insert w {snd (g q w) | q. True}" and "\<And>q. keeps P (g q)"
  shows "keeps P f"
  unfolding keeps_def
proof (intro allI impI)
  fix w assume "P w"
  then have "P (snd (g q w))" for q using assms(2) by (simp add: keeps_def)
  with assms(1) [of w] \<open>P w\<close> show "P (snd (f w))" by auto
qed

lemma reaches_keeps:
  assumes "reaches fsl f s" and "root_keeps P s"
  shows "source_keeps P fsl f"
proof -
  note k = wrapper_keeps [OF assms(2)]
  have "keeps P (File_Copy.Open fsl f p)" for p
    by (rule keeps_within [where g = "Sftp_Fs.Open s", OF _ k(1)]) (use assms(1) in \<open>simp only: reaches_def\<close>)
  moreover have "keeps P (File_Copy.Stat fsl f p)" for p
    by (rule keeps_within [where g = "Sftp_Fs.Stat s", OF _ k(2)]) (use assms(1) in \<open>simp only: reaches_def\<close>)
  moreover have "keeps P (File_Copy.ReadDir fsl f p)" for p
    by (rule keeps_within [where g = "Sftp_Fs.ReadDir s", OF _ k(3)]) (use assms(1) in \<open>simp only: reaches_def\<close>)
  ultimately show ?thesis unfolding source_keeps_def by blast
qed

lemma dest_keeps_quiet: "dest_keeps P fsl f progress \<Longrightarrow> dest_keeps P fsl f None"
  by (auto simp: dest_keeps_def)

section \<open>Properties\<close>

text \<open>C12. A download stays below the root of the sftp file system and within the names that are
  valid paths: whatever the server answers, also with names in its listings that climb out of
  the directory, a property of the state that survives the reads of the client at the root,
  followed by a valid name, and the calls on open files and on the local file system,
  survives the download.\<close>

theorem download_confined:
  assumes "Sub fsl (GetFS h) (removeSlash (Fs_Path.prefix sp)) = Inr src_fs"
    and "reaches fsl src_fs s" and "root_keeps P s"
    and "dest_keeps P fsl (DirFS fsl (Fs_Path.prefix dp)) progress" and "P w"
    and "DownloadDir_Apply fuel fsl \<lparr>DSrc = sp, DDest = dp, Progress = progress\<rparr> h w = Some (e, w') \<or>
      Download_Apply fuel fsl \<lparr>Src = sp, Dest = dp, TPerm = pm\<rparr> h w = Some (e, w')"
  shows "P w'"
  using assms(6)
proof
  note src = reaches_keeps [OF assms(2,3)]
  show "P w'" if "DownloadDir_Apply fuel fsl \<lparr>DSrc = sp, DDest = dp, Progress = progress\<rparr> h w = Some (e, w')"
    using that assms(1) copyDir_keeps(1) [OF src assms(4) _ assms(5)] by (simp add: DownloadDir_Apply_def)
  assume d: "Download_Apply fuel fsl \<lparr>Src = sp, Dest = dp, TPerm = pm\<rparr> h w = Some (e, w')"
  obtain r w1 where st: "File_Copy.Stat fsl src_fs (path sp) w = (r, w1)" by fastforce
  then have "P w1" using src assms(5) unfolding source_keeps_def by (auto dest: keepsD)
  with d st assms(1) show "P w'"
    using copyDir_keeps(1) [OF src dest_keeps_quiet [OF assms(4)]]
      copyFile_keeps [OF src dest_keeps_quiet [OF assms(4)]]
    by (auto simp: Download_Apply_def copyAction_Apply_def split: sum.splits if_splits)
qed

section \<open>A concrete run\<close>

text \<open>
  A server that logs the paths it is asked for, the last one first, and lists in every
  directory a file whose name climbs out of it.
\<close>

definition slash_valid :: "string \<Rightarrow> bool" where
  "slash_valid p \<longleftrightarrow> p = ''.'' \<or> list_all (\<lambda>c. c \<noteq> [] \<and> c \<noteq> ''.'' \<and> c \<noteq> ''..'') (Split p CHR ''/'')"

definition hostile_server :: "(bool, string list) sftp_client" where
  "hostile_server =
     \<lparr>COpen = (\<lambda>p w. (Inr True, p # w)),
      CStat = (\<lambda>p w. (Inr \<lparr>fileInfo.Name = p, fileInfo.Size = 0, fileInfo.Mode = 0x800001ED, fileInfo.IsDir = True\<rparr>, p # w)),
      CReadDir = (\<lambda>p w. (Inr [\<lparr>fileInfo.Name = ''../../etc/passwd'', fileInfo.Size = 1, fileInfo.Mode = 0x1A4, fileInfo.IsDir = False\<rparr>], p # w)),
      CMkdir = (\<lambda>p w. (None, p # w)), COpenFile = (\<lambda>p f w. (Inr True, p # w)),
      CChmod = (\<lambda>p m w. (None, p # w)), CChown = (\<lambda>p u g w. (None, p # w)),
      CChtimes = (\<lambda>p a m w. (None, p # w)), CRemove = (\<lambda>p w. (None, p # w)),
      CRename = (\<lambda>p q w. (None, p # w)), CSymlink = (\<lambda>p q w. (None, p # w)),
      CTruncate = (\<lambda>p n w. (None, p # w)), FileChmod = (\<lambda>f m w. (None, w)),
      FileClose = (\<lambda>f w. (None, w)), ValidPath = slash_valid\<rparr>"

definition hostile_fs :: "(bool, bool, string list) wrfs" where
  "hostile_fs =
    (let s = New hostile_server ''/'';
         entry = (\<lambda>e. \<lparr>Name = entry_Name e, IsDir = entry_IsDir e,
           Info = (\<lambda>w. (Inr \<lparr>Size = fileInfo.Size (fi e), InfoIsDir = entry_IsDir e\<rparr>, w))\<rparr>)
     in \<lparr>Sub = (\<lambda>f p. Inr f), DirFS = (\<lambda>p. False),
         Stat = (\<lambda>f p w. map_prod (map_sum id (\<lambda>i. \<lparr>Size = fileInfo.Size i, InfoIsDir = fileInfo.IsDir i\<rparr>)) id
           (Sftp_Fs.Stat s p w)),
         ReadDir = (\<lambda>f p w. map_prod (map_sum id (map entry)) id (Sftp_Fs.ReadDir s p w)),
         MkdirAll = (\<lambda>f p m w. (None, w)),
         Open = (\<lambda>f p w. Sftp_Fs.Open s p w), OpenFile = (\<lambda>f p fl m w. (Inr False, w)),
         Read = (\<lambda>h w. (([], Some (Sentinel EOF)), w)), is_Writer = (\<lambda>h. True),
         Write = (\<lambda>h b w. ((int (length b), None), w)),
         WriteTo = (\<lambda>h. None), ReadFrom = (\<lambda>h. None), Close = (\<lambda>h w. (None, w))\<rparr>)"

definition below_root :: "string list \<Rightarrow> bool" where
  "below_root w \<longleftrightarrow> list_all (\<lambda>p. take 2 p = ''//'' \<and> slash_valid (drop 2 p)) w"

lemma hostile_reaches: "reaches hostile_fs f (New hostile_server ''/'')"
  by (auto simp: reaches_def hostile_fs_def Let_def)

lemma hostile_root_keeps: "root_keeps below_root (New hostile_server ''/'')"
  by (simp add: root_keeps_def keeps_def New_def hostile_server_def below_root_def)

lemma hostile_dest_keeps: "dest_keeps below_root hostile_fs f None"
  by (simp add: dest_keeps_def keeps_def hostile_fs_def Let_def)

lemma hostile_run:
  "DownloadDir_Apply 1 hostile_fs \<lparr>DSrc = \<lparr>prefix = ''/'', path = ''d''\<rparr>, DDest = \<lparr>prefix = ''/tmp'', path = ''o''\<rparr>, Progress = None\<rparr>
      \<lparr>HostName = ''h'', GetFS = True\<rparr> [] =
    Some (Some (PathError ''open'' ''../etc/passwd'' (Sentinel ErrInvalid)), [''//d''])"
  by code_simp

lemma download_confined_witness:
  "DownloadDir_Apply 1 hostile_fs \<lparr>DSrc = \<lparr>prefix = ''/'', path = ''d''\<rparr>, DDest = \<lparr>prefix = ''/tmp'', path = ''o''\<rparr>, Progress = None\<rparr>
      \<lparr>HostName = ''h'', GetFS = True\<rparr> [] =
    Some (Some (PathError ''open'' ''../etc/passwd'' (Sentinel ErrInvalid)), [''//d'']) \<and> below_root [''//d'']"
proof -
  have "Sub hostile_fs (GetFS \<lparr>HostName = ''h'', GetFS = True\<rparr>)
      (removeSlash (Fs_Path.prefix \<lparr>prefix = ''/'', path = ''d''\<rparr>)) = Inr True"
    by (simp add: hostile_fs_def Let_def)
  from download_confined [OF this hostile_reaches hostile_root_keeps hostile_dest_keeps _ disjI1 [OF hostile_run]]
  show ?thesis using hostile_run by (simp add: below_root_def)
qed

end
