(* ===== verification/Command_Run.thy ===== *)
theory Command_Run
  imports Go_Error Go_Strings
begin

text \<open>
  cmd.go and the \<open>sshCmd\<close> methods of ssh.go: running a command on a session, \<open>Shell.Apply\<close>
  with its copying goroutines, \<open>Output\<close>, \<open>Quote\<close> and the path tests.

  A session call is given by what it returns. \<open>Shell.Apply\<close> is a step relation between the
  caller, the goroutines that copy the streams, and the remote process.
\<close>

section \<open>Commands on an ssh session\<close>

text \<open>\<open>Run\<close> and \<open>Wait\<close> close the session when the command has ended and ignore its EOF.\<close>

definition sshCmd_Run :: "error \<Rightarrow> error \<Rightarrow> error" where
  "sshCmd_Run rerr closed = safeClose closed rerr [EOF]"

definition sshCmd_Wait :: "error \<Rightarrow> error \<Rightarrow> error" where
  "sshCmd_Wait waited closed = safeClose closed waited [EOF]"

text \<open>
  \<open>RunContext\<close>: the goroutine closes the session once the context is done, at the latest when
  the deferred function cancels it, and then sends the result on an unbuffered channel from
  which the deferred function receives only if \<open>err\<close> is nil.
\<close>

record run_outcome =
  result :: error
  session_closed :: bool
  goroutine_blocked :: bool

definition RunContext :: "error \<Rightarrow> error \<Rightarrow> error \<Rightarrow> run_outcome" where
  "RunContext started waited closed =
     (case started of
        Some e \<Rightarrow> \<lparr>result = Some e, session_closed = False, goroutine_blocked = False\<rparr>
      | None \<Rightarrow>
          (case waited of
             Some e \<Rightarrow> \<lparr>result = Some e, session_closed = True, goroutine_blocked = True\<rparr>
           | None \<Rightarrow> \<lparr>result = closed, session_closed = True, goroutine_blocked = False\<rparr>))"

text \<open>\<open>RunContext\<close> leaves its goroutine blocked forever exactly when the command was started
  and failed; and a command that succeeds returns the result of closing the session, also
  when that is the EOF that \<open>Run\<close> ignores.\<close>

theorem RunContext_spec:
  "(goroutine_blocked (RunContext started waited closed) \<longleftrightarrow> started = None \<and> waited \<noteq> None) \<and>
   (result (RunContext started waited closed) = None \<longleftrightarrow> started = None \<and> waited = None \<and> closed = None) \<and>
   result (RunContext None None (Some (Sentinel EOF))) \<noteq> sshCmd_Run None (Some (Sentinel EOF))"
  by (auto simp: RunContext_def sshCmd_Run_def safeClose_def split: option.splits)

section \<open>Shell.Apply\<close>

datatype stream = In | Out | ErrOut

datatype copier = Copying stream | Sending error | Sent

text \<open>\<open>Draining n e\<close>: the deferred function has \<open>n\<close> errors to receive and \<open>e\<close> joined so far.\<close>

datatype caller = Waiting | Draining nat error

record shell_state =
  caller :: caller
  copiers :: "copier list"
  stdin_open :: bool
  exited :: bool

record shell =
  Stdin :: bool
  Stdout :: bool
  Stderr :: bool

definition streams :: "shell \<Rightarrow> stream list" where
  "streams sa =
     (if Stdin sa then [In] else []) @ (if Stdout sa then [Out] else []) @
     (if Stderr sa then [ErrOut] else [])"

text \<open>
  Setting up: the results of \<open>NewCommand\<close> and of the three pipe calls give the error to
  return, if any, and the copying goroutines started so far.
\<close>

definition Apply_setup ::
  "shell \<Rightarrow> error \<Rightarrow> error \<Rightarrow> error \<Rightarrow> error \<Rightarrow> error \<times> stream list" where
  "Apply_setup sa newCommand stdinPipe stdoutPipe stderrPipe =
     (if newCommand \<noteq> None then (newCommand, [])
      else if Stdin sa \<and> stdinPipe \<noteq> None then (stdinPipe, [])
      else if Stdout sa \<and> stdoutPipe \<noteq> None then (stdoutPipe, if Stdin sa then [In] else [])
      else if Stderr sa \<and> stderrPipe \<noteq> None
      then (stderrPipe, (if Stdin sa then [In] else []) @ (if Stdout sa then [Out] else []))
      else (None, streams sa))"

text \<open>After a failed set-up the deferred function drains the goroutines already started.\<close>

definition Apply_failed :: "error \<times> stream list \<Rightarrow> shell_state" where
  "Apply_failed setup =
     \<lparr>caller = Draining (length (snd setup)) (fst setup), copiers = map Copying (snd setup),
      stdin_open = False, exited = False\<rparr>"

text \<open>The state once the pipes are set up and the command is running.\<close>

definition Apply_init :: "shell \<Rightarrow> shell_state" where
  "Apply_init sa =
     \<lparr>caller = Waiting, copiers = map Copying (streams sa), stdin_open = Stdin sa, exited = False\<rparr>"

definition run_error :: "error \<Rightarrow> error" where
  "run_error e = (if e = Some (Sentinel EOF) then None else e)"

text \<open>
  \<open>copied\<close> is what \<open>io.Copy\<close> returns for a stream, \<open>rerr\<close> what \<open>RunContext\<close> returns, and
  \<open>needs_eof\<close> says that the remote process exits only after the end of its standard input.
  The deferred closes of the pipes write to shadowed variables, so their errors are lost;
  closing the standard input is what ends it. A copy of an output stream ends when the remote
  process has, or earlier with an error; the process is taken to run on when nothing reads
  its output any more.
\<close>

inductive Apply_step ::
  "(stream \<Rightarrow> error) \<Rightarrow> error \<Rightarrow> bool \<Rightarrow> shell_state \<Rightarrow> shell_state \<Rightarrow> bool"
  for copied rerr needs_eof where
  remote_exits: "\<not> exited st \<Longrightarrow> \<not> (needs_eof \<and> stdin_open st) \<Longrightarrow>
    Apply_step copied rerr needs_eof st (st\<lparr>exited := True\<rparr>)"
| copy_ends: "i < length (copiers st) \<Longrightarrow> copiers st ! i = Copying s \<Longrightarrow>
    s = In \<or> exited st \<or> copied s \<noteq> None \<Longrightarrow>
    Apply_step copied rerr needs_eof st (st\<lparr>copiers := (copiers st)[i := Sending (copied s)]\<rparr>)"
| run_returns: "caller st = Waiting \<Longrightarrow> exited st \<Longrightarrow>
    Apply_step copied rerr needs_eof st
      (st\<lparr>caller := Draining (length (copiers st)) (run_error rerr), stdin_open := False\<rparr>)"
| drain: "caller st = Draining (Suc n) e \<Longrightarrow> i < length (copiers st) \<Longrightarrow> copiers st ! i = Sending e' \<Longrightarrow>
    Apply_step copied rerr needs_eof st
      (st\<lparr>caller := Draining n (errors_Join [e, e']), copiers := (copiers st)[i := Sent]\<rparr>)"

definition Apply_done :: "shell_state \<Rightarrow> bool" where
  "Apply_done st \<longleftrightarrow> (\<exists>e. caller st = Draining 0 e)"

definition unsent :: "copier list \<Rightarrow> nat" where
  "unsent cs = length (filter (\<lambda>c. c \<noteq> Sent) cs)"

definition Apply_inv :: "bool \<Rightarrow> shell_state \<Rightarrow> bool" where
  "Apply_inv needs_eof st \<longleftrightarrow>
     (case caller st of
        Waiting \<Rightarrow> unsent (copiers st) = length (copiers st)
      | Draining n e \<Rightarrow> n = unsent (copiers st) \<and> exited st) \<and>
     \<not> (needs_eof \<and> stdin_open st)"

fun copier_weight :: "copier \<Rightarrow> nat" where
  "copier_weight (Copying _) = 2"
| "copier_weight (Sending _) = 1"
| "copier_weight Sent = 0"

definition Apply_weight :: "shell_state \<Rightarrow> nat" where
  "Apply_weight st =
     sum_list (map copier_weight (copiers st)) + of_bool (\<not> exited st) + of_bool (caller st = Waiting)"

lemma unsent_keep [simp]:
  "i < length cs \<Longrightarrow> cs ! i \<noteq> Sent \<Longrightarrow> c \<noteq> Sent \<Longrightarrow> unsent (cs[i := c]) = unsent cs"
  unfolding unsent_def
proof (induction cs arbitrary: i)
  case (Cons x xs)
  then show ?case by (cases i) auto
qed simp

lemma unsent_sent: "i < length cs \<Longrightarrow> cs ! i \<noteq> Sent \<Longrightarrow> Suc (unsent (cs[i := Sent])) = unsent cs"
  using filter_update_length [of i cs "\<lambda>c. c \<noteq> Sent" Sent] by (simp add: unsent_def)

lemma unsent_pos: "0 < unsent cs \<Longrightarrow> \<exists>i < length cs. cs ! i \<noteq> Sent"
  by (auto simp: unsent_def filter_empty_conv in_set_conv_nth)

lemma Apply_step_inv: "Apply_step copied rerr ne st st' \<Longrightarrow> Apply_inv ne st \<Longrightarrow> Apply_inv ne st'"
proof (induction rule: Apply_step.induct)
  case (drain st n e i e')
  then show ?case using unsent_sent [of i "copiers st"] by (auto simp: Apply_inv_def)
qed (auto simp: Apply_inv_def split: caller.splits)

lemma Apply_step_weight: "Apply_step copied rerr ne st st' \<Longrightarrow> Apply_weight st' < Apply_weight st"
proof (induction rule: Apply_step.induct)
  case (copy_ends i st s)
  then have "sum_list (map copier_weight ((copiers st)[i := Sending (copied s)])) <
      sum_list (map copier_weight (copiers st))"
    by (intro sum_list_update_less) auto
  then show ?case by (simp add: Apply_weight_def)
next
  case (drain st n e i e')
  then have "sum_list (map copier_weight ((copiers st)[i := Sent])) < sum_list (map copier_weight (copiers st))"
    by (intro sum_list_update_less) auto
  with drain show ?case by (simp add: Apply_weight_def)
qed (simp_all add: Apply_weight_def)

lemma Apply_progress:
  assumes "Apply_inv ne st" and "\<not> Apply_done st"
  shows "\<exists>st'. Apply_step copied rerr ne st st'"
proof (cases "exited st")
  case False
  with assms(1) show ?thesis by (auto simp: Apply_inv_def intro: Apply_step.remote_exits)
next
  case ex: True
  show ?thesis
  proof (cases "caller st")
    case Waiting
    with ex show ?thesis by (blast intro: Apply_step.run_returns)
  next
    case (Draining n e)
    with assms obtain m where n: "n = Suc m" by (cases n) (auto simp: Apply_done_def)
    then obtain i where i: "i < length (copiers st)" "copiers st ! i \<noteq> Sent"
      using unsent_pos [of "copiers st"] assms(1) Draining by (auto simp: Apply_inv_def)
    show ?thesis
    proof (cases "copiers st ! i")
      case (Copying s)
      with i ex show ?thesis by (blast intro: Apply_step.copy_ends)
    next
      case (Sending e')
      with i Draining n show ?thesis by (blast intro: Apply_step.drain)
    next
      case Sent
      with i show ?thesis by simp
    qed
  qed
qed

interpretation applying: live_system "Apply_step copied rerr ne" "Apply_inv ne" Apply_weight Apply_done
  for copied rerr ne
  by unfold_locales (auto intro: Apply_step_inv Apply_step_weight Apply_progress)

definition copiers_ok ::
  "(stream \<Rightarrow> error) \<Rightarrow> error \<Rightarrow> shell \<Rightarrow> shell_state \<Rightarrow> bool" where
  "copiers_ok copied rerr sa st \<longleftrightarrow>
     length (copiers st) = length (streams sa) \<and>
     (\<forall>i < length (streams sa). copiers st ! i \<in>
        {Copying (streams sa ! i), Sending (copied (streams sa ! i)), Sent}) \<and>
     (case caller st of
        Waiting \<Rightarrow> Sent \<notin> set (copiers st)
      | Draining n e \<Rightarrow> e = None \<longleftrightarrow> run_error rerr = None \<and>
          (\<forall>i < length (streams sa). copiers st ! i = Sent \<longrightarrow> copied (streams sa ! i) = None))"

lemma copiers_ok_step:
  assumes "Apply_step copied rerr ne st st'" and "copiers_ok copied rerr sa st"
  shows "copiers_ok copied rerr sa st'"
  using assms(1)
proof cases
  case remote_exits
  with assms(2) show ?thesis by (simp add: copiers_ok_def cong: caller.case_cong)
next
  case (copy_ends i s)
  have "s = streams sa ! i" using copy_ends(2,3) assms(2) by (auto simp: copiers_ok_def)
  have sent: "copiers st' ! j = Sent \<longleftrightarrow> copiers st ! j = Sent" if "j < length (copiers st)" for j
    using copy_ends(1,2,3) that by (auto simp: nth_list_update)
  then have "Sent \<in> set (copiers st') \<longleftrightarrow> Sent \<in> set (copiers st)"
    using copy_ends(1) by (auto simp: in_set_conv_nth)
  moreover have "\<forall>j < length (streams sa). copiers st' ! j \<in>
      {Copying (streams sa ! j), Sending (copied (streams sa ! j)), Sent}"
    using copy_ends(1,2) assms(2) \<open>s = streams sa ! i\<close> by (auto simp: copiers_ok_def nth_list_update)
  moreover have "caller st' = caller st" "length (copiers st') = length (copiers st)"
    using copy_ends(1) by simp_all
  ultimately show ?thesis using assms(2) sent
    by (simp add: copiers_ok_def split: caller.splits)
next
  case run_returns
  then have "copiers st ! i \<noteq> Sent" if "i < length (streams sa)" for i
    using assms(2) that by (auto simp: copiers_ok_def in_set_conv_nth)
  with run_returns assms(2) show ?thesis by (auto simp: copiers_ok_def)
next
  case (drain n e i e')
  have "e' = copied (streams sa ! i)" using drain(3,4) assms(2) by (auto simp: copiers_ok_def)
  moreover have "errors_Join [e, e'] = None \<longleftrightarrow> e = None \<and> e' = None" by (auto simp: errors_Join_None_iff)
  ultimately show ?thesis using drain assms(2) by (auto simp: copiers_ok_def nth_list_update)
qed

lemma copiers_ok_reachable:
  assumes "(Apply_step copied rerr ne)\<^sup>*\<^sup>* (Apply_init sa) st"
  shows "copiers_ok copied rerr sa st"
  using assms
proof (induction rule: rtranclp_induct)
  case base
  show ?case by (auto simp: copiers_ok_def Apply_init_def)
next
  case (step u v)
  from copiers_ok_step [OF step(2,3)] show ?case .
qed

lemma Apply_inv_init: "\<not> (ne \<and> Stdin sa) \<Longrightarrow> Apply_inv ne (Apply_init sa)"
proof -
  have "unsent (map Copying ss) = length ss" for ss by (induction ss) (simp_all add: unsent_def)
  then show "\<not> (ne \<and> Stdin sa) \<Longrightarrow> ?thesis" by (simp add: Apply_inv_def Apply_init_def)
qed





section \<open>Quote and the path tests\<close>

definition quote_char :: char where
  "quote_char = CHR 0x27"

definition backslash :: char where
  "backslash = CHR 0x5C"

definition Quote :: "string \<Rightarrow> string" where
  "Quote s = [quote_char] @ ReplaceAll s [quote_char] [quote_char, backslash, quote_char, quote_char] @ [quote_char]"

text \<open>
  \<open>pathTest\<close>, where \<open>apply\<close> is \<open>Shell.Apply\<close> of a command without streams on the host.
\<close>

definition pathTest_command :: "string \<Rightarrow> string \<Rightarrow> string" where
  "pathTest_command flag path = ''test '' @ flag @ '' '' @ Quote path"

definition pathTest :: "(string \<Rightarrow> error) \<Rightarrow> string \<Rightarrow> string \<Rightarrow> bool \<times> error" where
  "pathTest apply flag path =
     (case apply (pathTest_command flag path) of
        None \<Rightarrow> (True, None)
      | Some e \<Rightarrow> if exit_status e = Some 1 then (False, None) else (False, Some e))"

definition FileExists :: "(string \<Rightarrow> error) \<Rightarrow> string \<Rightarrow> bool \<times> error" where
  "FileExists apply path = pathTest apply ''-f'' path"

definition DirExists :: "(string \<Rightarrow> error) \<Rightarrow> string \<Rightarrow> bool \<times> error" where
  "DirExists apply path = pathTest apply ''-d'' path"

text \<open>\<open>Output\<close>: what the command wrote, whatever the error.\<close>

definition Output :: "(shell \<Rightarrow> string \<Rightarrow> string \<times> error) \<Rightarrow> string \<Rightarrow> string \<times> error" where
  "Output apply cmd = apply \<lparr>Stdin = False, Stdout = True, Stderr = False\<rparr> cmd"

text \<open>
  How a POSIX shell splits a command into words, for the characters that have no other meaning
  outside quotes; \<open>None\<close> when the text has one that does or ends inside quotes.
\<close>

definition plain_char :: "char \<Rightarrow> bool" where
  "plain_char c \<longleftrightarrow>
     c \<notin> set ''|&;<>()$`*?[]#~=%!{}'' \<and> c \<noteq> quote_char \<and> c \<noteq> backslash \<and> c \<noteq> CHR 0x22 \<and> c \<noteq> newline"

definition start_word :: "string option \<Rightarrow> string" where
  "start_word cur = (case cur of None \<Rightarrow> [] | Some w \<Rightarrow> w)"

fun sh_words :: "bool \<Rightarrow> string option \<Rightarrow> string \<Rightarrow> string list option" where
  "sh_words False cur [] = Some (case cur of None \<Rightarrow> [] | Some w \<Rightarrow> [w])"
| "sh_words True cur [] = None"
| "sh_words True cur (c # cs) =
     (if c = quote_char then sh_words False cur cs
      else sh_words True (Some (start_word cur @ [c])) cs)"
| "sh_words False cur (c # cs) =
     (if c = quote_char then sh_words True (Some (start_word cur)) cs
      else if c = CHR '' '' then
        (case cur of
           None \<Rightarrow> sh_words False None cs
         | Some w \<Rightarrow> map_option ((#) w) (sh_words False None cs))
      else if c = backslash then
        (case cs of
           [] \<Rightarrow> None
         | d # ds \<Rightarrow> if d = newline then None else sh_words False (Some (start_word cur @ [d])) ds)
      else if plain_char c then sh_words False (Some (start_word cur @ [c])) cs
      else None)"

lemma quote_not_backslash [simp]: "backslash \<noteq> quote_char" "quote_char \<noteq> backslash"
  "quote_char \<noteq> newline" "quote_char \<noteq> CHR '' ''" "backslash \<noteq> CHR '' ''"
  by (simp_all add: quote_char_def backslash_def newline_def)

lemma sh_words_quoted:
  "sh_words True (Some w)
     (ReplaceAll s [quote_char] [quote_char, backslash, quote_char, quote_char] @ quote_char # rest) =
   sh_words False (Some (w @ s)) rest"
proof (induction s arbitrary: w)
  case (Cons c s)
  show ?case
  proof (cases "c = quote_char")
    case True
    with Cons show ?thesis by (simp add: HasPrefix_def start_word_def)
  next
    case False
    with Cons show ?thesis by (simp add: HasPrefix_def start_word_def)
  qed
qed (simp add: HasPrefix_def start_word_def)

lemma sh_words_plain:
  "list_all plain_char w \<Longrightarrow> CHR '' '' \<notin> set w \<Longrightarrow>
     sh_words False (Some v) (w @ rest) = sh_words False (Some (v @ w)) rest"
  by (induction w arbitrary: v) (auto simp: plain_char_def start_word_def)

text \<open>C14. Quoting is safe: whatever bytes a path holds, a POSIX shell reads the command of
  \<open>pathTest\<close> as exactly three words, of which the last is the path itself, and a quoted text
  alone as the single word it quotes.\<close>

theorem Quote_is_one_word:
  "sh_words False None (Quote s) = Some [s] \<and>
   sh_words False None (pathTest_command ''-f'' s) = Some [''test'', ''-f'', s] \<and>
   sh_words False None (pathTest_command ''-d'' s) = Some [''test'', ''-d'', s]"
proof -
  have q: "sh_words False None (Quote s) = Some [s]"
    using sh_words_quoted [of "[]" s "[]"] by (simp add: Quote_def start_word_def)
  have "sh_words False None (pathTest_command [CHR ''-'', f] s) = Some [''test'', [CHR ''-'', f], s]"
    if "f = CHR ''f'' \<or> f = CHR ''d''" for f
    using that q
    by (auto simp: pathTest_command_def start_word_def plain_char_def quote_char_def backslash_def newline_def)
  with q show ?thesis by simp
qed

text \<open>\<open>FileExists\<close> and \<open>DirExists\<close> answer true exactly when the remote test succeeded, and
  false without an error exactly when the error they got carries exit status 1, however
  deeply it is wrapped; every other error is passed on.\<close>

theorem pathTest_contract:
  "(pathTest apply flag path = (True, None) \<longleftrightarrow> apply (pathTest_command flag path) = None) \<and>
   (pathTest apply flag path = (False, None) \<longleftrightarrow>
     (\<exists>e. apply (pathTest_command flag path) = Some e \<and> exit_status e = Some 1)) \<and>
   (\<forall>e. snd (pathTest apply flag path) = Some e \<longrightarrow>
     apply (pathTest_command flag path) = Some e \<and> exit_status e \<noteq> Some 1) \<and>
   (apply (pathTest_command flag path) = Some (TaskError t h (ExitError 1)) \<longrightarrow>
     pathTest apply flag path = (False, None))"
  by (auto simp: pathTest_def split: option.splits)

lemma pathTest_contract_witness:
  "pathTest (\<lambda>c. Some (TaskError ''t'' ''h'' (ExitError 1))) ''-f'' ''/x'' = (False, None)"
  using pathTest_contract [of "\<lambda>c. Some (TaskError ''t'' ''h'' (ExitError 1))"] by blast

section \<open>The exit status of a remote command\<close>

lemma exit_status_Join:
  "exit_status x = Some n \<Longrightarrow> \<exists>y. errors_Join [Some x, e] = Some y \<and> exit_status y = Some n"
  by (cases e) (simp_all add: errors_Join_def)

lemma exit_status_kept:
  assumes "(Apply_step copied (Some (ExitError n)) ne)\<^sup>*\<^sup>* (Apply_init sa) st"
  shows "case caller st of Waiting \<Rightarrow> True | Draining k e \<Rightarrow> \<exists>x. e = Some x \<and> exit_status x = Some n"
  using assms
proof (induction rule: rtranclp_induct)
  case base
  show ?case by (simp add: Apply_init_def)
next
  case (step u v)
  from step(2,3) show ?case
    by cases (auto simp: run_error_def dest: exit_status_Join cong: caller.case_cong)
qed

text \<open>C39. The exit status of a command survives: when the remote process ends with status \<open>n\<close>,
  the error of \<open>Shell.Apply\<close> carries \<open>n\<close> whatever the copying goroutines report and however
  they interleave, so does the \<open>TaskError\<close> that \<open>Group.Run\<close> makes of it, and the path tests
  answer false without an error exactly for status 1.\<close>

theorem exit_status_survives:
  assumes "(Apply_step copied (Some (ExitError n)) ne)\<^sup>*\<^sup>* (Apply_init sa) st"
    and "caller st = Draining 0 e"
  shows "\<exists>x. e = Some x \<and> exit_status x = Some n \<and>
    exit_status (TaskError taskName hostName x) = Some n \<and>
    wrapError hostName taskName e = Some (TaskError taskName hostName x) \<and>
    pathTest (\<lambda>cmd. e) flag p = (False, if n = 1 then None else e)"
proof -
  from exit_status_kept [OF assms(1)] assms(2) obtain x where "e = Some x" "exit_status x = Some n" by auto
  then show ?thesis by (auto simp: pathTest_def)
qed

lemma exit_status_survives_witness:
  "\<exists>(st :: shell_state) x. caller st = Draining 0 (Some x) \<and> exit_status (TaskError ''check'' ''h'' x) = Some 3"
proof -
  let ?sa = "\<lparr>Stdin = False, Stdout = True, Stderr = True\<rparr>"
  let ?S = "Apply_step (\<lambda>s. Some (Sentinel ''write'')) (Some (ExitError 3)) False"
  obtain st where st: "?S\<^sup>*\<^sup>* (Apply_init ?sa) st" "Apply_done st"
    using applying.reaches_final [OF Apply_inv_init [of False ?sa]] by blast
  then obtain e where e: "caller st = Draining 0 e" by (auto simp: Apply_done_def)
  from exit_status_survives [OF st(1) e, of "''check''" "''h''"] obtain x where
    "e = Some x" "exit_status (TaskError ''check'' ''h'' x) = Some 3" by auto
  with e show ?thesis by (intro exI conjI) simp_all
qed

end
