(* ===== verification/Keep_Alive.thy ===== *)
theory Keep_Alive
  imports Iago_Prelude
begin

text \<open>
  ssh.go, the keepalives of a connection: \<open>keepAliveLoop\<close> as a step relation of its goroutine
  and the ticker, and the stop function that \<open>startKeepAlive\<close> returns.

  The ticker channel holds one tick at most. A \<open>select\<close> with both channels ready takes
  either, so a pending tick may still be served after \<open>done\<close> was closed. \<open>pings\<close> and
  \<open>deaths\<close> count the requests answered or failed and the calls of \<open>onDead\<close>.
\<close>

datatype loop = Selecting | Pinging | Ended

record ka_state =
  loop :: loop
  pending :: bool
  ticking :: bool
  done_closed :: bool
  pings :: nat
  deaths :: nat

definition startKeepAlive :: ka_state where
  "startKeepAlive =
     \<lparr>loop = Selecting, pending = False, ticking = True, done_closed = False, pings = 0, deaths = 0\<rparr>"

inductive keepAliveLoop :: "bool \<Rightarrow> ka_state \<Rightarrow> ka_state \<Rightarrow> bool" for hasOnDead where
  fire: "ticking st \<Longrightarrow> \<not> pending st \<Longrightarrow> keepAliveLoop hasOnDead st (st\<lparr>pending := True\<rparr>)"
| done_case: "loop st = Selecting \<Longrightarrow> done_closed st \<Longrightarrow>
    keepAliveLoop hasOnDead st (st\<lparr>loop := Ended\<rparr>)"
| tick_case: "loop st = Selecting \<Longrightarrow> pending st \<Longrightarrow>
    keepAliveLoop hasOnDead st (st\<lparr>loop := Pinging, pending := False\<rparr>)"
| ping_ok: "loop st = Pinging \<Longrightarrow>
    keepAliveLoop hasOnDead st (st\<lparr>loop := Selecting, pings := Suc (pings st)\<rparr>)"
| ping_failed: "loop st = Pinging \<Longrightarrow>
    keepAliveLoop hasOnDead st
      (st\<lparr>loop := Ended, pings := Suc (pings st), deaths := deaths st + of_bool hasOnDead\<rparr>)"

inductive_cases keepAliveLoopE: "keepAliveLoop hasOnDead st st'"

text \<open>The stop function: \<open>once.Do\<close> closes \<open>done\<close> and stops the ticker the first time.\<close>

definition stop :: "ka_state \<Rightarrow> ka_state" where
  "stop st = (if done_closed st then st else st\<lparr>done_closed := True, ticking := False\<rparr>)"

text \<open>A run: the goroutine, the ticker and any number of calls of the stop function.\<close>

inductive ka_reachable :: "bool \<Rightarrow> ka_state \<Rightarrow> bool" for hasOnDead where
  start: "ka_reachable hasOnDead startKeepAlive"
| step: "ka_reachable hasOnDead st \<Longrightarrow> keepAliveLoop hasOnDead st st' \<Longrightarrow> ka_reachable hasOnDead st'"
| stopped: "ka_reachable hasOnDead st \<Longrightarrow> ka_reachable hasOnDead (stop st)"

definition ka_inv :: "bool \<Rightarrow> ka_state \<Rightarrow> bool" where
  "ka_inv hasOnDead st \<longleftrightarrow>
     deaths st \<le> of_bool (hasOnDead \<and> loop st = Ended) \<and> (ticking st \<longleftrightarrow> \<not> done_closed st)"

lemma ka_inv_reachable: "ka_reachable hasOnDead st \<Longrightarrow> ka_inv hasOnDead st"
proof (induction rule: ka_reachable.induct)
  case start
  show ?case by (simp add: ka_inv_def startKeepAlive_def)
next
  case (step st st')
  from step(2,3) show ?case by (cases) (auto simp: ka_inv_def)
next
  case (stopped st)
  then show ?case by (simp add: ka_inv_def stop_def)
qed

text \<open>Once stopped, only the goroutine moves.\<close>

fun loop_weight :: "loop \<Rightarrow> nat" where
  "loop_weight Selecting = 1"
| "loop_weight Pinging = 2"
| "loop_weight Ended = 0"

definition ka_weight :: "ka_state \<Rightarrow> nat" where
  "ka_weight st = loop_weight (loop st) + 2 * of_bool (pending st)"

definition ka_stopped :: "ka_state \<Rightarrow> bool" where
  "ka_stopped st \<longleftrightarrow> done_closed st \<and> \<not> ticking st"

interpretation stopping: live_system "keepAliveLoop hasOnDead" ka_stopped ka_weight "\<lambda>st. loop st = Ended"
  for hasOnDead
proof
  fix st st' :: ka_state
  assume st: "ka_stopped st" "keepAliveLoop hasOnDead st st'"
  from st(2,1) show "ka_stopped st'" by cases (auto simp: ka_stopped_def)
  from st(2,1) show "ka_weight st' < ka_weight st" by cases (auto simp: ka_stopped_def ka_weight_def)
next
  fix st :: ka_state
  assume "ka_stopped st" "loop st \<noteq> Ended"
  then show "\<exists>st'. keepAliveLoop hasOnDead st st'"
    by (cases "loop st") (auto simp: ka_stopped_def intro: keepAliveLoop.done_case keepAliveLoop.ping_ok)
qed





end
