(* ===== verification/Host_Vars.thy ===== *)
theory Host_Vars
  imports Ssh_Host Go_Int
begin

text \<open>
  The helpers of iago.go on the interface \<open>Host\<close>: \<open>GetStringVar\<close> and \<open>GetIntVar\<close>, which
  read the variables of a host, and \<open>Expand\<close>, which is \<open>os.Expand\<close> over the environment of
  the host. \<open>os.Expand\<close> is written out as the standard library has it; the host is the
  \<open>sshHost\<close> of ssh.go.
\<close>

section \<open>Variables\<close>

text \<open>A value of type \<open>any\<close>, as far as the type assertions tell them apart.\<close>

datatype any = Nil | StringVal string | IntVal int | OtherVal nat

definition assert_string :: "any \<Rightarrow> string \<times> bool" where
  "assert_string v = (case v of StringVal s \<Rightarrow> (s, True) | _ \<Rightarrow> ([], False))"

definition assert_int :: "any \<Rightarrow> int \<times> bool" where
  "assert_int v = (case v of IntVal i \<Rightarrow> (i, True) | _ \<Rightarrow> (0, False))"

definition GetStringVar :: "('cl, 'ac, 'sftp, any) sshHost \<Rightarrow> string \<Rightarrow> string" where
  "GetStringVar host key =
     (case GetVar host key of Some val \<Rightarrow> fst (assert_string val) | None \<Rightarrow> [])"

definition GetIntVar :: "('cl, 'ac, 'sftp, any) sshHost \<Rightarrow> string \<Rightarrow> int" where
  "GetIntVar host key =
     (case GetVar host key of Some val \<Rightarrow> fst (assert_int val) | None \<Rightarrow> 0)"

section \<open>os.Expand\<close>

definition isShellSpecialVar :: "char \<Rightarrow> bool" where
  "isShellSpecialVar c \<longleftrightarrow> c \<in> set ''*#$@!?-0123456789''"

definition isAlphaNum :: "char \<Rightarrow> bool" where
  "isAlphaNum c \<longleftrightarrow>
     c = CHR ''_'' \<or> is_digit c \<or>
     (of_char c :: nat) \<in> {97..122} \<or> (of_char c :: nat) \<in> {65..90}"

text \<open>
  The name after a dollar sign and how many bytes it takes: braces around the name count, an
  empty name with a positive width is invalid syntax.
\<close>

definition braced_name :: "string \<Rightarrow> string \<times> nat" where
  "braced_name s =
     (case s of
        [] \<Rightarrow> ([], 1)
      | c # rest \<Rightarrow>
          if isShellSpecialVar c \<and> rest \<noteq> [] \<and> hd rest = CHR ''}'' then ([c], 3)
          else if CHR ''}'' \<notin> set s then ([], 1)
          else if c = CHR ''}'' then ([], 2)
          else (let nm = takeWhile (\<lambda>c. c \<noteq> CHR ''}'') s in (nm, length nm + 2)))"

definition getShellName :: "string \<Rightarrow> string \<times> nat" where
  "getShellName s =
     (if hd s = CHR ''{'' then braced_name (tl s)
      else if isShellSpecialVar (hd s) then ([hd s], 1)
      else (let nm = takeWhile isAlphaNum s in (nm, length nm)))"

fun os_Expand :: "string \<Rightarrow> (string \<Rightarrow> string) \<Rightarrow> string" where
  "os_Expand [] mapping = []"
| "os_Expand (c # s) mapping =
     (if c \<noteq> CHR ''$'' \<or> s = [] then c # os_Expand s mapping
      else
        (case getShellName s of
           (nm, w) \<Rightarrow>
             (if nm = [] \<and> 0 < w then [] else if nm = [] then [c] else mapping nm) @
             os_Expand (drop w s) mapping))"

definition Expand :: "('cl, 'ac, 'sftp, any) sshHost \<Rightarrow> string \<Rightarrow> string" where
  "Expand h s = os_Expand s (GetEnv h)"

declare os_Expand.simps(2) [simp del]

section \<open>Properties\<close>

text \<open>A variable set on a host is read back by the accessor of its type; through the accessor
  of the other type, and when it was never set, it is the zero value; and setting one variable
  does not change another.\<close>

theorem vars_typed:
  "GetStringVar (SetVar h k (StringVal s)) k = s \<and> GetIntVar (SetVar h k (IntVal i)) k = i \<and>
   GetStringVar (SetVar h k (IntVal i)) k = [] \<and> GetIntVar (SetVar h k (StringVal s)) k = 0 \<and>
   (GetVar h k = None \<longrightarrow> GetStringVar h k = [] \<and> GetIntVar h k = 0) \<and>
   (k' \<noteq> k \<longrightarrow> GetStringVar (SetVar h k v) k' = GetStringVar h k' \<and>
     GetIntVar (SetVar h k v) k' = GetIntVar h k')"
  by (simp add: GetStringVar_def GetIntVar_def SetVar_def GetVar_def assert_string_def assert_int_def)

lemma os_Expand_literal: "CHR ''$'' \<notin> set a \<Longrightarrow> os_Expand (a @ s) mapping = a @ os_Expand s mapping"
  by (induction a) (auto simp: os_Expand.simps(2))

lemma os_Expand_unchanged: "CHR ''$'' \<notin> set a \<Longrightarrow> os_Expand a mapping = a"
  using os_Expand_literal [of a "[]" mapping] by simp

lemma braced_name_braces:
  assumes "n \<noteq> []" and "CHR ''}'' \<notin> set n"
  shows "braced_name (n @ CHR ''}'' # s) = (n, length n + 2)"
proof -
  have "\<forall>c \<in> set n. c \<noteq> CHR ''}''" using assms(2) by auto
  then have t: "takeWhile (\<lambda>c. c \<noteq> CHR ''}'') (n @ CHR ''}'' # s) = n"
    by (rule takeWhile_append_stop) simp
  obtain c m where n: "n = c # m" using assms(1) by (cases n) auto
  show ?thesis
  proof (cases m)
    case Nil
    with t n assms(2) show ?thesis by (simp add: braced_name_def)
  next
    case (Cons d m')
    with t n assms(2) show ?thesis by (auto simp: braced_name_def)
  qed
qed

text \<open>C38. \<open>Expand\<close> replaces a braced variable by its value in the environment of the host, once:
  the value itself is not expanded again, and the text before and after is treated on its own.\<close>

theorem Expand_braced:
  assumes "CHR ''$'' \<notin> set a" and "n \<noteq> []" and "CHR ''}'' \<notin> set n"
  shows "Expand h (a @ ''${'' @ n @ ''}'' @ s) = a @ GetEnv h n @ Expand h s"
  using assms
  by (simp add: Expand_def os_Expand_literal os_Expand.simps(2) getShellName_def braced_name_braces)

text \<open>A host for the concrete runs.\<close>

definition sample_host :: "(unit, unit, unit, any) sshHost" where
  "sample_host =
     \<lparr>name = ''h'', env = [''USER'' \<mapsto> ''$1''], client = (), sftpClient = (), fsys = ((), ''/''),
      vars = Map.empty, forwardAgent = False, agentConn = None, stopKeepAlive = None,
      agentFwdOnce = False\<rparr>"

lemma vars_typed_witness:
  "GetIntVar (SetVar (SetVar sample_host ''n'' (IntVal 7)) ''s'' (StringVal ''x'')) ''n'' = 7"
  using vars_typed [of "SetVar sample_host ''n'' (IntVal 7)" "''s''" _ _ "''n''" "StringVal ''x''"]
    vars_typed [of sample_host "''n''" _ 7] by simp

lemma Expand_braced_witness: "Expand sample_host ''~${USER}/'' = ''~$1/''"
proof -
  have "CHR ''$'' \<notin> set ''~''" "''USER'' \<noteq> []" "CHR ''}'' \<notin> set ''USER''" by simp_all
  from Expand_braced [OF this, of sample_host "''/''"] show ?thesis
    by (simp add: Expand_def GetEnv_def sample_host_def os_Expand.simps(2))
qed

end
