(* ===== verification/Iago_Test.thy ===== *)
theory Iago_Test
  imports Group_Options Ssh_Config
begin

text \<open>
  iagotest/iagotest.go: the test groups that iago offers to other packages, ssh hosts in
  docker containers. A test runs in a state with its registered cleanups: \<open>t.Fatal\<close> and
  \<open>t.Skip\<close> stop the test, and in every case the cleanups then run, the last registered one
  first. The record \<open>docker\<close> holds the calls out of the package (the container library, key
  generation, files, the clock, \<open>iago.DialSSH\<close> and \<open>Group.Close\<close>), on an opaque state.
\<close>

section \<open>Tests\<close>

text \<open>The cleanups the package registers, and the trace of what is made and removed.\<close>

datatype cleanup =
    CloseBuild
  | CleanupNetwork string
  | CleanupContainer string string
  | CloseGroup

datatype tevent =
    NetworkMade string
  | NetworkRemoved string
  | ContainerMade string
  | ContainerRemoved string
  | Connected string
  | GroupClosed
  | BuildClosed

record 'w tb =
  world :: 'w
  failed :: bool
  skipped :: bool
  cleanups :: "cleanup list"
  events :: "tevent list"

text \<open>\<open>Stopped\<close>: the test goroutine has exited by \<open>Fatal\<close> or \<open>Skip\<close>.\<close>

datatype 'a res = Done 'a | Stopped | Hangs

type_synonym ('w, 'a) test = "'w tb \<Rightarrow> 'a res \<times> 'w tb"

definition return_t :: "'a \<Rightarrow> ('w, 'a) test" where
  "return_t a t = (Done a, t)"

definition bind_t :: "('w, 'a) test \<Rightarrow> ('a \<Rightarrow> ('w, 'b) test) \<Rightarrow> ('w, 'b) test" where
  "bind_t m f t =
     (case m t of
        (Done a, t1) \<Rightarrow> f a t1
      | (Stopped, t1) \<Rightarrow> (Stopped, t1)
      | (Hangs, t1) \<Rightarrow> (Hangs, t1))"

definition call :: "('w \<Rightarrow> 'a \<times> 'w) \<Rightarrow> ('w, 'a) test" where
  "call c t = (case c (world t) of (a, w) \<Rightarrow> (Done a, t\<lparr>world := w\<rparr>))"

definition Fatal :: "('w, 'a) test" where
  "Fatal t = (Stopped, t\<lparr>failed := True\<rparr>)"

definition Skip :: "('w, 'a) test" where
  "Skip t = (Stopped, t\<lparr>skipped := True\<rparr>)"

definition Error :: "('w, unit) test" where
  "Error t = (Done (), t\<lparr>failed := True\<rparr>)"

definition Cleanup :: "cleanup \<Rightarrow> ('w, unit) test" where
  "Cleanup c t = (Done (), t\<lparr>cleanups := c # cleanups t\<rparr>)"

definition emit_event :: "tevent \<Rightarrow> ('w, unit) test" where
  "emit_event e t = (Done (), t\<lparr>events := events t @ [e]\<rparr>)"

text \<open>\<open>if err != nil { t.Fatal(err) }\<close> after a call.\<close>

definition must :: "('w \<Rightarrow> (err + 'a) \<times> 'w) \<Rightarrow> ('w, 'a) test" where
  "must c = bind_t (call c) (\<lambda>r. case r of Inl e \<Rightarrow> Fatal | Inr v \<Rightarrow> return_t v)"

definition must_nil :: "('w \<Rightarrow> error \<times> 'w) \<Rightarrow> ('w, unit) test" where
  "must_nil c = bind_t (call c) (\<lambda>r. case r of Some e \<Rightarrow> Fatal | None \<Rightarrow> return_t ())"

definition check_nil :: "('w \<Rightarrow> error \<times> 'w) \<Rightarrow> ('w, unit) test" where
  "check_nil c = bind_t (call c) (\<lambda>r. case r of Some e \<Rightarrow> Error | None \<Rightarrow> return_t ())"

section \<open>The calls out of the package\<close>

record InspectResponse =
  ContainerName :: string
  Ports :: "string \<rightharpoonup> string list"

record ('p, 'g, 'a, 'h, 'w) docker =
  GenerateKey :: "'w \<Rightarrow> (err + 'p) \<times> 'w"
  MarshalPrivateKey :: "'p \<Rightarrow> 'w \<Rightarrow> (err + string) \<times> 'w"
  NewSignerFromKey :: "'p \<Rightarrow> 'w \<Rightarrow> (err + 'g) \<times> 'w"
  MarshalAuthorizedKey :: "'g \<Rightarrow> string"
  NewContainer :: "'w \<Rightarrow> (err + unit) \<times> 'w"
  Ping :: "'w \<Rightarrow> error \<times> 'w"
  tar_empty :: 'a
  WriteHeader :: "string \<Rightarrow> int \<Rightarrow> int \<Rightarrow> 'a \<Rightarrow> error \<times> 'a"
  WriteTar :: "string \<Rightarrow> 'a \<Rightarrow> error \<times> 'a"
  ImageBuild :: "'a \<Rightarrow> 'w \<Rightarrow> (err + unit) \<times> 'w"
  ConsumeStream :: "'w \<Rightarrow> error \<times> 'w"
  BuildClose :: "'w \<Rightarrow> error \<times> 'w"
  NetworkCreate :: "'w \<Rightarrow> (err + string) \<times> 'w"
  NetworkConnect :: "string \<Rightarrow> string \<Rightarrow> string \<Rightarrow> 'w \<Rightarrow> error \<times> 'w"
  NetworkDisconnect :: "string \<Rightarrow> string \<Rightarrow> 'w \<Rightarrow> error \<times> 'w"
  NetworkRemove :: "string \<Rightarrow> 'w \<Rightarrow> error \<times> 'w"
  ContainerCreate :: "string \<Rightarrow> 'w \<Rightarrow> (err + string) \<times> 'w"
  ContainerStart :: "string \<Rightarrow> 'w \<Rightarrow> error \<times> 'w"
  ContainerInspect :: "string \<Rightarrow> 'w \<Rightarrow> (err + InspectResponse) \<times> 'w"
  ContainerStop :: "string \<Rightarrow> 'w \<Rightarrow> error \<times> 'w"
  ContainerRemove :: "string \<Rightarrow> 'w \<Rightarrow> error \<times> 'w"
  ContainerLogs :: "string \<Rightarrow> 'w \<Rightarrow> unit \<times> 'w"
  ssh_Dial :: "string \<Rightarrow> 'g \<Rightarrow> 'w \<Rightarrow> (err + unit) \<times> 'w"
  ConnClose :: "'w \<Rightarrow> 'w"
  Now :: "'w \<Rightarrow> int \<times> 'w"
  Sleep :: "int \<Rightarrow> 'w \<Rightarrow> 'w"
  WriteFile :: "string \<Rightarrow> string \<Rightarrow> int \<Rightarrow> 'w \<Rightarrow> error \<times> 'w"
  DialHost :: "string \<Rightarrow> string \<Rightarrow> 'g \<Rightarrow> 'w \<Rightarrow> (err + 'h) \<times> 'w"
  GroupClose :: "'w \<Rightarrow> error \<times> 'w"
  dockerfile :: string
  entrypoint :: string

section \<open>Building the environment\<close>

definition generateKey :: "('p, 'g, 'a, 'h, 'w) docker \<Rightarrow> ('w, 'g \<times> string \<times> string) test" where
  "generateKey d =
     bind_t (must (GenerateKey d)) (\<lambda>priv.
     bind_t (must (MarshalPrivateKey d priv)) (\<lambda>pem.
     bind_t (must (NewSignerFromKey d priv)) (\<lambda>signer.
       return_t (signer, pem, MarshalAuthorizedKey d signer))))"

definition createClient :: "('p, 'g, 'a, 'h, 'w) docker \<Rightarrow> ('w, unit) test" where
  "createClient d = must (NewContainer d)"

text \<open>The archive has the two embedded files; the writer is not closed.\<close>

definition prepareBuildContext :: "('p, 'g, 'a, 'h, 'w) docker \<Rightarrow> err + 'a" where
  "prepareBuildContext d =
     (case WriteHeader d ''Dockerfile'' (int (length (dockerfile d))) 0x1A4 (tar_empty d) of
        (Some e, _) \<Rightarrow> Inl e
      | (None, a1) \<Rightarrow>
          (case WriteTar d (dockerfile d) a1 of
             (Some e, _) \<Rightarrow> Inl e
           | (None, a2) \<Rightarrow>
               (case WriteHeader d ''entrypoint.sh'' (int (length (entrypoint d))) 0x1ED a2 of
                  (Some e, _) \<Rightarrow> Inl e
                | (None, a3) \<Rightarrow>
                    (case WriteTar d (entrypoint d) a3 of
                       (Some e, _) \<Rightarrow> Inl e
                     | (None, a4) \<Rightarrow> Inr a4))))"

definition buildImage :: "('p, 'g, 'a, 'h, 'w) docker \<Rightarrow> ('w, unit) test" where
  "buildImage d =
     bind_t (must (\<lambda>w. (prepareBuildContext d, w))) (\<lambda>buildCtx.
     bind_t (must (ImageBuild d buildCtx)) (\<lambda>_.
     bind_t (Cleanup CloseBuild) (\<lambda>_.
       check_nil (ConsumeStream d))))"

definition createNetwork :: "('p, 'g, 'a, 'h, 'w) docker \<Rightarrow> ('w, string) test" where
  "createNetwork d =
     bind_t (must (NetworkCreate d)) (\<lambda>net. bind_t (emit_event (NetworkMade net)) (\<lambda>_. return_t net))"

definition setupContainerEnvironment :: "('p, 'g, 'a, 'h, 'w) docker \<Rightarrow> bool \<Rightarrow> ('w, string) test" where
  "setupContainerEnvironment d skip =
     bind_t (createClient d) (\<lambda>_.
     bind_t (call (Ping d)) (\<lambda>e.
     bind_t (if e \<noteq> None then (if skip then Skip else Fatal) else return_t ()) (\<lambda>_.
     bind_t (buildImage d) (\<lambda>_. createNetwork d))))"

section \<open>Containers\<close>

definition sshPortBinding :: "InspectResponse \<Rightarrow> string" where
  "sshPortBinding details =
     (case Ports details ''22/tcp'' of
        None \<Rightarrow> []
      | Some [] \<Rightarrow> []
      | Some (port # _) \<Rightarrow> ''localhost:'' @ port)"

text \<open>The duration in the error is kept as its number of nanoseconds.\<close>

partial_function (option) wait_loop ::
  "('p, 'g, 'a, 'h, 'w) docker \<Rightarrow> string \<Rightarrow> 'g \<Rightarrow> int \<Rightarrow> int \<Rightarrow> 'w \<Rightarrow> (error \<times> 'w) option" where
  "wait_loop d addr signer timeout deadline w =
     (case Now d w of
        (now, w1) \<Rightarrow>
          if now < deadline
          then
            (case ssh_Dial d addr signer w1 of
               (Inr _, w2) \<Rightarrow> Some (None, ConnClose d w2)
             | (Inl _, w2) \<Rightarrow> wait_loop d addr signer timeout deadline (Sleep d 200000000 w2))
          else Some (Some (Errorf ''ssh server not ready on %s after %v'' [addr, show_int timeout]), w1))"

definition waitForSSHReady ::
  "('p, 'g, 'a, 'h, 'w) docker \<Rightarrow> string \<Rightarrow> 'g \<Rightarrow> int \<Rightarrow> 'w \<Rightarrow> (error \<times> 'w) option" where
  "waitForSSHReady d addr signer timeout w =
     (case Now d w of (now, w1) \<Rightarrow> wait_loop d addr signer timeout (now + timeout) w1)"

text \<open>The retry loop on the port binding, with the number of attempts left.\<close>

fun port_loop :: "('p, 'g, 'a, 'h, 'w) docker \<Rightarrow> string \<Rightarrow> nat \<Rightarrow> ('w, string) test" where
  "port_loop d cid 0 = return_t []"
| "port_loop d cid (Suc i) =
     bind_t (must (ContainerInspect d cid)) (\<lambda>details.
       if sshPortBinding details \<noteq> [] then return_t (sshPortBinding details)
       else bind_t (call (\<lambda>w. ((), Sleep d 1000000 w))) (\<lambda>_. port_loop d cid i))"

definition wait_ready :: "('p, 'g, 'a, 'h, 'w) docker \<Rightarrow> string \<Rightarrow> 'g \<Rightarrow> ('w, unit) test" where
  "wait_ready d addr signer t =
     (case waitForSSHReady d addr signer 10000000000 (world t) of
        None \<Rightarrow> (Hangs, t)
      | Some (Some e, w) \<Rightarrow> Fatal (t\<lparr>world := w\<rparr>)
      | Some (None, w) \<Rightarrow> (Done (), t\<lparr>world := w\<rparr>))"

definition createContainer ::
  "('p, 'g, 'a, 'h, 'w) docker \<Rightarrow> string \<Rightarrow> 'g \<Rightarrow> ('w, string \<times> string) test" where
  "createContainer d net signer =
     bind_t (must (ContainerCreate d (''AUTHORIZED_KEYS='' @ MarshalAuthorizedKey d signer))) (\<lambda>cid.
     bind_t (emit_event (ContainerMade cid)) (\<lambda>_.
     bind_t (must_nil (ContainerStart d cid)) (\<lambda>_.
     bind_t (must (ContainerInspect d cid)) (\<lambda>details.
     let name = TrimPrefix (ContainerName details) ''/'' in
     bind_t (must_nil (NetworkConnect d net cid name)) (\<lambda>_.
     bind_t (port_loop d cid 10) (\<lambda>addr.
     bind_t (if addr = [] then Fatal else return_t ()) (\<lambda>_.
     bind_t (wait_ready d addr signer) (\<lambda>_. return_t (name, addr)))))))))"

fun create_hosts ::
  "('p, 'g, 'a, 'h, 'w) docker \<Rightarrow> string \<Rightarrow> 'g \<Rightarrow> nat \<Rightarrow> 'h list \<Rightarrow> ('w, 'h list) test" where
  "create_hosts d net signer 0 hs = return_t hs"
| "create_hosts d net signer (Suc n) hs =
     bind_t (createContainer d net signer) (\<lambda>(cname, addr).
     bind_t (Cleanup (CleanupContainer net cname)) (\<lambda>_.
     bind_t (call (DialHost d cname addr signer)) (\<lambda>r.
       case r of
         Inl e \<Rightarrow> bind_t (call (ContainerLogs d cname)) (\<lambda>_. Fatal)
       | Inr h \<Rightarrow> bind_t (emit_event (Connected cname)) (\<lambda>_. create_hosts d net signer n (hs @ [h])))))"

definition CreateSSHGroup ::
  "('p, 'g, 'a, 'h, 'w) docker \<Rightarrow> nat \<Rightarrow> bool \<Rightarrow> ('w, ('h, 'c, 'k) Group) test" where
  "CreateSSHGroup d n skip =
     bind_t (generateKey d) (\<lambda>(signer, _).
     bind_t (setupContainerEnvironment d skip) (\<lambda>net.
     bind_t (Cleanup (CleanupNetwork net)) (\<lambda>_.
     bind_t (create_hosts d net signer n []) (\<lambda>hs.
     bind_t (Cleanup CloseGroup) (\<lambda>_. return_t (NewGroup hs))))))"

section \<open>Cleanups\<close>

definition cleanupContainer :: "('p, 'g, 'a, 'h, 'w) docker \<Rightarrow> string \<Rightarrow> string \<Rightarrow> ('w, unit) test" where
  "cleanupContainer d net cid =
     bind_t (check_nil (ContainerStop d cid)) (\<lambda>_.
     bind_t (check_nil (NetworkDisconnect d net cid)) (\<lambda>_.
     bind_t (emit_event (ContainerRemoved cid)) (\<lambda>_. check_nil (ContainerRemove d cid))))"

definition cleanupNetwork :: "('p, 'g, 'a, 'h, 'w) docker \<Rightarrow> string \<Rightarrow> ('w, unit) test" where
  "cleanupNetwork d net =
     bind_t (emit_event (NetworkRemoved net)) (\<lambda>_. check_nil (NetworkRemove d net))"

fun run_cleanup :: "('p, 'g, 'a, 'h, 'w) docker \<Rightarrow> cleanup \<Rightarrow> ('w, unit) test" where
  "run_cleanup d CloseBuild = bind_t (emit_event BuildClosed) (\<lambda>_. check_nil (BuildClose d))"
| "run_cleanup d (CleanupNetwork net) = cleanupNetwork d net"
| "run_cleanup d (CleanupContainer net cid) = cleanupContainer d net cid"
| "run_cleanup d CloseGroup = bind_t (emit_event GroupClosed) (\<lambda>_. check_nil (GroupClose d))"

fun run_cleanups :: "('p, 'g, 'a, 'h, 'w) docker \<Rightarrow> cleanup list \<Rightarrow> 'w tb \<Rightarrow> 'w tb" where
  "run_cleanups d [] t = t"
| "run_cleanups d (c # cs) t = run_cleanups d cs (snd (run_cleanup d c t))"

text \<open>The end of the test: the registered cleanups, last one first.\<close>

definition finish :: "('p, 'g, 'a, 'h, 'w) docker \<Rightarrow> 'w tb \<Rightarrow> 'w tb" where
  "finish d t = run_cleanups d (cleanups t) (t\<lparr>cleanups := []\<rparr>)"

section \<open>Keys and configuration files\<close>

record 'g sshKeyFiles =
  signer :: 'g
  privateKeyPath :: string
  publicKeyPath :: string
  publicKeyData :: string

definition setupSSHKeys :: "('p, 'g, 'a, 'h, 'w) docker \<Rightarrow> string \<Rightarrow> ('w, 'g sshKeyFiles) test" where
  "setupSSHKeys d tmpDir =
     bind_t (generateKey d) (\<lambda>(sg, priv, pub).
     let privKeyFile = Join [tmpDir, ''id_ed25519''] in
     bind_t (must_nil (WriteFile d privKeyFile priv 0x180)) (\<lambda>_.
     let pubKeyFile = Join [tmpDir, ''id_ed25519.pub''] in
     bind_t (must_nil (WriteFile d pubKeyFile pub 0x180)) (\<lambda>_.
       return_t \<lparr>signer = sg, privateKeyPath = privKeyFile, publicKeyPath = pubKeyFile,
         publicKeyData = pub\<rparr>)))"

definition config_line :: "string \<Rightarrow> string \<Rightarrow> string" where
  "config_line key val = CHR 0x09 # key @ '' '' @ val @ [newline]"

definition sshConfigEntry :: "string \<Rightarrow> string \<Rightarrow> string \<Rightarrow> string \<Rightarrow> string \<Rightarrow> string" where
  "sshConfigEntry hostAlias hostname usr identityFile port =
     ''Host '' @ hostAlias @ [newline] @
     config_line ''Hostname'' hostname @ config_line ''User'' usr @
     config_line ''IdentityFile'' identityFile @ config_line ''Port'' port @
     config_line ''StrictHostKeyChecking'' ''no'' @
     config_line ''UserKnownHostsFile'' ''/dev/null''"

definition createSSHConfigFile ::
  "('p, 'g, 'a, 'h, 'w) docker \<Rightarrow> string \<Rightarrow> string list \<Rightarrow> ('w, unit) test" where
  "createSSHConfigFile d configPath entries =
     must_nil (WriteFile d configPath (foldl (\<lambda>content entry. content @ entry @ [newline]) [] entries) 0x180)"

text \<open>\<open>net.SplitHostPort\<close>, with its error messages.\<close>

definition SplitHostPort :: "string \<Rightarrow> err + string \<times> string" where
  "SplitHostPort hp =
     (let bad = (\<lambda>m. Inl (Native m [])) in
      if CHR '':'' \<notin> set hp then bad ''missing port in address''
      else
        (let port = rev (takeWhile (\<lambda>c. c \<noteq> CHR '':'') (rev hp));
             pre = take (length hp - length port - 1) hp
         in
          if hd hp = CHR ''['' then
            (if CHR '']'' \<notin> set hp then bad ''missing ']' in address''
             else
               (let host = takeWhile (\<lambda>c. c \<noteq> CHR '']'') (tl hp);
                    after = drop (length host + 2) hp
                in
                 if after = [] then bad ''missing port in address''
                 else if length host + 2 \<noteq> length pre then
                   (if hd after = CHR '':'' then bad ''too many colons in address''
                    else bad ''missing port in address'')
                 else if CHR ''['' \<in> set (tl hp) then bad ''unexpected '[' in address''
                 else if CHR '']'' \<in> set after then bad ''unexpected ']' in address''
                 else Inr (host, port)))
          else if CHR '':'' \<in> set pre then bad ''too many colons in address''
          else if CHR ''['' \<in> set hp then bad ''unexpected '[' in address''
          else if CHR '']'' \<in> set hp then bad ''unexpected ']' in address''
          else Inr (pre, port)))"

record containerInfo =
  cid :: string
  address :: string
  infoAlias :: string
  cport :: string

definition createContainerWithInfo ::
  "('p, 'g, 'a, 'h, 'w) docker \<Rightarrow> string \<Rightarrow> string \<Rightarrow> 'g \<Rightarrow> ('w, containerInfo) test" where
  "createContainerWithInfo d net hostAlias sg =
     bind_t (createContainer d net sg) (\<lambda>(c, addr).
       case SplitHostPort addr of
         Inl e \<Rightarrow> Fatal
       | Inr (_, port) \<Rightarrow>
           return_t \<lparr>cid = c, address = addr, infoAlias = hostAlias, cport = port\<rparr>)"

section \<open>What the functions add to the cleanups and the trace\<close>

text \<open>\<open>quiet m\<close>: the test function registers nothing and makes nothing.\<close>

definition quiet :: "('w, 'a) test \<Rightarrow> bool" where
  "quiet m \<longleftrightarrow> (\<forall>t. cleanups (snd (m t)) = cleanups t \<and> events (snd (m t)) = events t)"

named_theorems quiets \<open>functions that register and make nothing\<close>

lemma quiet_bind [quiets]: "quiet m \<Longrightarrow> (\<And>a. quiet (f a)) \<Longrightarrow> quiet (bind_t m f)"
  by (auto simp: quiet_def bind_t_def split: prod.splits res.splits) (metis snd_conv)+

lemma quiet_basic [quiets]:
  "quiet (return_t a)" "quiet (call c)" "quiet Fatal" "quiet Skip" "quiet Error"
  by (auto simp: quiet_def return_t_def call_def Fatal_def Skip_def Error_def split: prod.splits)

lemma quiet_must [quiets]: "quiet (must c)" "quiet (must_nil e)" "quiet (check_nil e)"
  by (auto simp: must_def must_nil_def check_nil_def intro!: quiets split: sum.splits option.splits)

lemma quiet_generateKey [quiets]: "quiet (generateKey d)"
  by (auto simp: generateKey_def intro!: quiets)

lemma quiet_port_loop [quiets]: "quiet (port_loop d c i)"
  by (induction i) (auto intro!: quiets)

lemma quiet_wait_ready [quiets]: "quiet (wait_ready d addr g)"
  by (auto simp: quiet_def wait_ready_def Fatal_def split: option.splits prod.splits)

lemma quietD: "quiet m \<Longrightarrow> m t = (r, t') \<Longrightarrow> cleanups t' = cleanups t \<and> events t' = events t"
  by (metis quiet_def snd_conv)

lemma bind_t_cases:
  assumes "bind_t m f t = (r, t')"
  obtains (returned) a t1 where "m t = (Done a, t1)" "f a t1 = (r, t')"
  | (stopped) "m t = (Stopped, t')" "r = Stopped"
  | (hangs) "m t = (Hangs, t')" "r = Hangs"
  using assms by (auto simp: bind_t_def split: prod.splits res.splits)

fun is_done :: "'a res \<Rightarrow> bool" where
  "is_done (Done a) = True"
| "is_done Stopped = False"
| "is_done Hangs = False"

fun is_made :: "tevent \<Rightarrow> bool" where
  "is_made (ContainerMade c) = True"
| "is_made _ = False"

definition made :: "tevent list \<Rightarrow> nat" where
  "made evs = length (filter is_made evs)"

fun networks :: "tevent list \<Rightarrow> string list" where
  "networks [] = []"
| "networks (NetworkMade n # evs) = n # networks evs"
| "networks (_ # evs) = networks evs"

lemma made_simps [simp]:
  "made [] = 0" "made (xs @ ys) = made xs + made ys" "made (e # xs) = of_bool (is_made e) + made xs"
  by (simp_all add: made_def)

lemma networks_append [simp]: "networks (xs @ ys) = networks xs @ networks ys"
  by (induction xs rule: networks.induct) auto

lemma emit_event_eq: "emit_event e t = (r, t') \<longleftrightarrow> r = Done () \<and> t' = t\<lparr>events := events t @ [e]\<rparr>"
  by (auto simp: emit_event_def)

lemma Cleanup_eq: "Cleanup c t = (r, t') \<longleftrightarrow> r = Done () \<and> t' = t\<lparr>cleanups := c # cleanups t\<rparr>"
  by (auto simp: Cleanup_def)

lemma call_eq: "call c t = (r, t') \<longleftrightarrow> (\<exists>a w. c (world t) = (a, w) \<and> r = Done a \<and> t' = t\<lparr>world := w\<rparr>)"
  by (auto simp: call_def split: prod.splits)

lemma createContainer_effect:
  assumes "createContainer d net sg t = (r, t')"
  shows "cleanups t' = cleanups t"
    and "events t' = events t \<and> \<not> is_done r \<or> (\<exists>c. events t' = events t @ [ContainerMade c])"
proof -
  have "cleanups t' = cleanups t \<and>
      (events t' = events t \<and> \<not> is_done r \<or> (\<exists>c. events t' = events t @ [ContainerMade c]))"
    using assms unfolding createContainer_def
  proof (cases rule: bind_t_cases)
    case (returned c t1)
    note q = quietD [OF quiet_must(1) returned(1)]
    from returned(2) show ?thesis
    proof (cases rule: bind_t_cases)
      case (returned u t2)
      have "cleanups t' = cleanups t2 \<and> events t' = events t2"
        using returned(2) by (rule quietD [rotated]) (auto simp: Let_def intro!: quiets)
      with returned(1) q show ?thesis by (auto simp: emit_event_eq)
    qed (use q in \<open>auto simp: emit_event_eq\<close>)
  qed (auto dest!: quietD [OF quiet_must(1)])
  then show "cleanups t' = cleanups t"
    and "events t' = events t \<and> \<not> is_done r \<or> (\<exists>c. events t' = events t @ [ContainerMade c])"
    by blast+
qed

lemma createContainer_events:
  assumes "createContainer d net sg t = (r, t')"
  shows "\<exists>evs. events t' = events t @ evs \<and> networks evs = [] \<and> made evs \<le> 1"
  using createContainer_effect(2) [OF assms]
  by (auto intro: exI [of _ "[]"] exI [of _ "[ContainerMade c]" for c])

lemma create_hosts_effect:
  "create_hosts d net sg n hs t = (r, t') \<Longrightarrow>
    \<exists>names evs. cleanups t' = map (CleanupContainer net) names @ cleanups t \<and>
      events t' = events t @ evs \<and> networks evs = [] \<and>
      length names \<le> made evs \<and> made evs \<le> Suc (length names) \<and>
      (\<forall>hs'. r = Done hs' \<longrightarrow> made evs = length names \<and> length names = n \<and> length hs' = length hs + n)"
proof (induction n arbitrary: hs t)
  case 0
  then show ?case by (auto simp: return_t_def intro!: exI [of _ "[]"])
next
  case (Suc n)
  from Suc.prems have "bind_t (createContainer d net sg) (\<lambda>(cname, addr).
     bind_t (Cleanup (CleanupContainer net cname)) (\<lambda>_.
     bind_t (call (DialHost d cname addr sg)) (\<lambda>r.
       case r of
         Inl e \<Rightarrow> bind_t (call (ContainerLogs d cname)) (\<lambda>_. Fatal)
       | Inr h \<Rightarrow> bind_t (emit_event (Connected cname)) (\<lambda>_. create_hosts d net sg n (hs @ [h]))))) t = (r, t')"
    by simp
  then show ?case
  proof (cases rule: bind_t_cases)
    case (returned ca t1)
    obtain cname addr where ca: "ca = (cname, addr)" by (cases ca)
    from createContainer_effect [OF returned(1)] obtain c where
      c: "cleanups t1 = cleanups t" "events t1 = events t @ [ContainerMade c]" by auto
    let ?t2 = "t1\<lparr>cleanups := CleanupContainer net cname # cleanups t1\<rparr>"
    obtain x w where x: "DialHost d cname addr sg (world t1) = (x, w)" by fastforce
    let ?t3 = "?t2\<lparr>world := w\<rparr>"
    show ?thesis
    proof (cases x)
      case (Inl e)
      have "bind_t (call (ContainerLogs d cname)) (\<lambda>_. Fatal) ?t3 = (r, t')"
        using returned(2) x Inl by (simp add: ca bind_t_def Cleanup_def call_def)
      then have "cleanups t' = cleanups ?t3 \<and> events t' = events ?t3" "\<not> is_done r"
        by (auto elim!: bind_t_cases dest!: quietD [OF quiet_basic(2)] simp: Fatal_def)
      with c show ?thesis by (intro exI [of _ "[cname]"] exI [of _ "[ContainerMade c]"]) auto
    next
      case (Inr h)
      let ?t4 = "?t3\<lparr>events := events t1 @ [Connected cname]\<rparr>"
      have "create_hosts d net sg n (hs @ [h]) ?t4 = (r, t')"
        using returned(2) x Inr by (simp add: ca bind_t_def Cleanup_def call_def emit_event_def)
      from Suc.IH [OF this] obtain names evs where
        "cleanups t' = map (CleanupContainer net) names @ cleanups ?t4"
        "events t' = events ?t4 @ evs" "networks evs = []"
        "length names \<le> made evs" "made evs \<le> Suc (length names)"
        "\<forall>hs'. r = Done hs' \<longrightarrow> made evs = length names \<and> length names = n \<and>
          length hs' = length (hs @ [h]) + n" by blast
      with c show ?thesis
        by (intro exI [of _ "names @ [cname]"] exI [of _ "[ContainerMade c, Connected cname] @ evs"]) auto
    qed
  next
    case stopped
    obtain evs where "events t' = events t @ evs" "networks evs = []" "made evs \<le> 1"
      using createContainer_events [OF stopped(1)] by blast
    with createContainer_effect(1) [OF stopped(1)] stopped(2) show ?thesis
      by (intro exI [of _ "[]"] exI [of _ evs]) auto
  next
    case hangs
    obtain evs where "events t' = events t @ evs" "networks evs = []" "made evs \<le> 1"
      using createContainer_events [OF hangs(1)] by blast
    with createContainer_effect(1) [OF hangs(1)] hangs(2) show ?thesis
      by (intro exI [of _ "[]"] exI [of _ evs]) auto
  qed
qed

lemma buildImage_effect:
  assumes "buildImage d t = (r, t')"
  shows "events t' = events t" and "cleanups t' = cleanups t \<and> \<not> is_done r \<or> cleanups t' = CloseBuild # cleanups t"
proof -
  have "events t' = events t \<and> (cleanups t' = cleanups t \<and> \<not> is_done r \<or> cleanups t' = CloseBuild # cleanups t)"
    using assms unfolding buildImage_def
    by (elim bind_t_cases)
      (auto dest!: quietD [OF quiet_must(1)] quietD [OF quiet_must(3)] simp: Cleanup_eq)
  then show "events t' = events t"
    and "cleanups t' = cleanups t \<and> \<not> is_done r \<or> cleanups t' = CloseBuild # cleanups t" by blast+
qed

lemma setup_effect:
  assumes "setupContainerEnvironment d skip t = (r, t')"
  shows "(\<exists>net. r = Done net \<and> cleanups t' = CloseBuild # cleanups t \<and> events t' = events t @ [NetworkMade net]) \<or>
    \<not> is_done r \<and> events t' = events t \<and> (\<exists>b. set b \<subseteq> {CloseBuild} \<and> cleanups t' = b @ cleanups t)"
proof -
  have q: "quiet (bind_t (createClient d) (\<lambda>_. bind_t (call (Ping d)) (\<lambda>e.
      if e \<noteq> None then if skip then Skip else Fatal else return_t ())))"
    by (auto simp: createClient_def intro!: quiets)
  have assoc: "setupContainerEnvironment d skip = bind_t (bind_t (createClient d) (\<lambda>_. bind_t (call (Ping d)) (\<lambda>e.
      if e \<noteq> None then if skip then Skip else Fatal else return_t ()))) (\<lambda>_. bind_t (buildImage d) (\<lambda>_. createNetwork d))"
    by (rule ext) (auto simp: setupContainerEnvironment_def bind_t_def split: prod.splits res.splits)
  from assms show ?thesis unfolding assoc
  proof (cases rule: bind_t_cases)
    case (returned u t1)
    note q1 = quietD [OF q returned(1)]
    from returned(2) show ?thesis
    proof (cases rule: bind_t_cases)
      case (returned v t2)
      from buildImage_effect [OF returned(1)] q1
      have b: "events t2 = events t" "cleanups t2 = CloseBuild # cleanups t" by auto
      from returned(2) b show ?thesis
        unfolding createNetwork_def
        by (elim bind_t_cases) (auto dest!: quietD [OF quiet_must(1)] simp: emit_event_eq return_t_def)
    next
      case stopped
      with buildImage_effect [OF stopped(1)] q1 show ?thesis by auto
    next
      case hangs
      with buildImage_effect [OF hangs(1)] q1 show ?thesis by auto
    qed
  qed (use quietD [OF q] in auto)
qed

lemma close_group_effect:
  assumes "bind_t m (\<lambda>hs. bind_t (Cleanup CloseGroup) (\<lambda>_. return_t (NewGroup hs))) t = (r, t')"
  shows "\<exists>r' t4. m t = (r', t4) \<and> is_done r = is_done r' \<and> events t' = events t4 \<and>
    cleanups t' = (if is_done r then [CloseGroup] else []) @ cleanups t4 \<and>
    (\<forall>g. r = Done g \<longrightarrow> r' = Done (Group.Hosts g))"
proof (cases "m t")
  case (Pair r' t4)
  with assms show ?thesis
    by (cases r') (auto simp: bind_t_def Cleanup_def return_t_def NewGroup_def)
qed

text \<open>Each cleanup has one event; the cleanups run whatever fails.\<close>

fun cleanup_event :: "cleanup \<Rightarrow> tevent" where
  "cleanup_event CloseBuild = BuildClosed"
| "cleanup_event (CleanupNetwork net) = NetworkRemoved net"
| "cleanup_event (CleanupContainer net c) = ContainerRemoved c"
| "cleanup_event CloseGroup = GroupClosed"

lemma check_nil_done: "\<exists>t'. check_nil c t = (Done (), t')"
  by (auto simp: check_nil_def bind_t_def call_def Error_def return_t_def split: prod.splits option.splits)

lemma check_nil_frame [simp]:
  "events (snd (check_nil c t)) = events t" "cleanups (snd (check_nil c t)) = cleanups t"
  using quiet_must(3) [of c] by (simp_all add: quiet_def)

lemma run_cleanup_event: "events (snd (run_cleanup d c t)) = events t @ [cleanup_event c]"
proof (cases c)
  case (CleanupContainer net cid)
  obtain t1 where t1: "check_nil (ContainerStop d cid) t = (Done (), t1)" using check_nil_done by blast
  obtain t2 where t2: "check_nil (NetworkDisconnect d net cid) t1 = (Done (), t2)" using check_nil_done by blast
  have "events t2 = events t"
    using quietD [OF quiet_must(3) t1] quietD [OF quiet_must(3) t2] by simp
  with CleanupContainer t1 t2 show ?thesis
    by (simp add: cleanupContainer_def bind_t_def emit_event_def)
qed (simp_all add: cleanupNetwork_def bind_t_def emit_event_def)

lemma run_cleanups_events: "events (run_cleanups d cs t) = events t @ map cleanup_event cs"
  by (induction cs arbitrary: t) (simp_all add: run_cleanup_event)

lemma finish_events: "events (finish d t) = events t @ map cleanup_event (cleanups t)"
  by (simp add: finish_def run_cleanups_events)

section \<open>Properties\<close>


text \<open>When the clock runs, waiting for the ssh server ends: with no error once a dial succeeds,
  and otherwise with an error not before the deadline.\<close>

theorem waitForSSHReady_returns:
  assumes "\<And>v. fst (Now d v) = clock v \<and> clock v \<le> clock (snd (Now d v))"
    and "\<And>v. clock v \<le> clock (snd (ssh_Dial d addr sg v))"
    and "\<And>v. clock v < clock (Sleep d 200000000 v)"
  shows "\<exists>e w'. waitForSSHReady d addr sg timeout w = Some (e, w') \<and>
    (e \<noteq> None \<longrightarrow> clock w + timeout \<le> clock w')"
proof -
  have "\<exists>e w'. wait_loop d addr sg timeout deadline v = Some (e, w') \<and> (e \<noteq> None \<longrightarrow> deadline \<le> clock w')"
    for deadline v
  proof (induction "nat (deadline - clock v)" arbitrary: v rule: less_induct)
    case less
    obtain v1 where v1: "Now d v = (clock v, v1)" "clock v \<le> clock v1"
      using assms(1) [of v] by (cases "Now d v") auto
    obtain x v2 where v2: "ssh_Dial d addr sg v1 = (x, v2)" "clock v1 \<le> clock v2"
      using assms(2) [of v1] by (cases "ssh_Dial d addr sg v1") auto
    show ?case
    proof (cases "clock v < deadline")
      case True
      have "nat (deadline - clock (Sleep d 200000000 v2)) < nat (deadline - clock v)"
        using True v1(2) v2(2) assms(3) [of v2] by simp
      from less [OF this] True show ?thesis
        by (subst wait_loop.simps) (auto simp: v1(1) v2(1) split: sum.splits)
    next
      case False
      then show ?thesis using v1 by (subst wait_loop.simps) auto
    qed
  qed
  then show ?thesis using assms(1) [of w] by (auto simp: waitForSSHReady_def split: prod.splits)
qed

text \<open>
  A docker daemon whose state is the clock and the number of containers created; the second
  container never answers on ssh.
\<close>

definition sample_docker :: "(unit, unit, unit, string, int \<times> nat) docker" where
  "sample_docker =
     \<lparr>GenerateKey = (\<lambda>w. (Inr (), w)), MarshalPrivateKey = (\<lambda>p w. (Inr ''pem'', w)),
      NewSignerFromKey = (\<lambda>p w. (Inr (), w)), MarshalAuthorizedKey = (\<lambda>g. ''key''),
      NewContainer = (\<lambda>w. (Inr (), w)), Ping = (\<lambda>w. (None, w)), tar_empty = (),
      WriteHeader = (\<lambda>n k m a. (None, a)), WriteTar = (\<lambda>b a. (None, a)),
      ImageBuild = (\<lambda>a w. (Inr (), w)), ConsumeStream = (\<lambda>w. (None, w)), BuildClose = (\<lambda>w. (None, w)),
      NetworkCreate = (\<lambda>w. (Inr ''net'', w)), NetworkConnect = (\<lambda>n c a w. (None, w)),
      NetworkDisconnect = (\<lambda>n c w. (None, w)), NetworkRemove = (\<lambda>n w. (None, w)),
      ContainerCreate = (\<lambda>e (t, k). (Inr (if k = 0 then ''c0'' else ''c1''), (t, Suc k))),
      ContainerStart = (\<lambda>c w. (None, w)),
      ContainerInspect = (\<lambda>c w. (Inr \<lparr>ContainerName = ''/'' @ c, Ports = [''22/tcp'' \<mapsto> [''2200'']]\<rparr>, w)),
      ContainerStop = (\<lambda>c w. (None, w)), ContainerRemove = (\<lambda>c w. (None, w)),
      ContainerLogs = (\<lambda>c w. ((), w)),
      ssh_Dial = (\<lambda>a g (t, k). (if k = 1 then Inr () else Inl (Sentinel ''refused''), (t, k))),
      ConnClose = (\<lambda>w. w), Now = (\<lambda>(t, k). (t, (t, k))), Sleep = (\<lambda>n (t, k). (t + 60 * n, k)),
      WriteFile = (\<lambda>f c m w. (None, w)), DialHost = (\<lambda>c a g w. (Inr c, w)),
      GroupClose = (\<lambda>w. (None, w)), dockerfile = ''FROM'', entrypoint = ''sshd''\<rparr>"

lemma waitForSSHReady_returns_witness:
  "\<exists>e w'. waitForSSHReady sample_docker ''localhost:1'' () 10 (0, 2) = Some (e, w') \<and> (e \<noteq> None \<longrightarrow> 10 \<le> fst w')"
proof -
  have "fst (Now sample_docker v) = fst v \<and> fst v \<le> fst (snd (Now sample_docker v))"
    "fst v \<le> fst (snd (ssh_Dial sample_docker ''localhost:1'' () v))" for v
    by (simp_all add: sample_docker_def split: prod.splits)
  moreover have "fst v < fst (Sleep sample_docker 200000000 v)" for v
    by (simp add: sample_docker_def split: prod.splits)
  ultimately have "\<exists>e w'. waitForSSHReady sample_docker ''localhost:1'' () 10 (0, 2) = Some (e, w') \<and>
      (e \<noteq> None \<longrightarrow> fst (0 :: int, 2 :: nat) + 10 \<le> fst w')"
    by (intro waitForSSHReady_returns) blast+
  then show ?thesis by simp
qed

lemma sample_ready:
  "waitForSSHReady sample_docker a () 10000000000 (0, 1) = Some (None, (0, 1))"
  "waitForSSHReady sample_docker a () 10000000000 (0, 2) =
    Some (Some (Errorf ''ssh server not ready on %s after %v'' [a, show_int 10000000000]), (12000000000, 2))"
  by (simp_all add: waitForSSHReady_def wait_loop.simps sample_docker_def)

lemma sample_calls:
  "GenerateKey sample_docker w = (Inr (), w)" "MarshalPrivateKey sample_docker p w = (Inr ''pem'', w)"
  "NewSignerFromKey sample_docker p w = (Inr (), w)" "NewContainer sample_docker w = (Inr (), w)"
  "Ping sample_docker w = (None, w)" "prepareBuildContext sample_docker = Inr ()"
  "ImageBuild sample_docker a w = (Inr (), w)" "ConsumeStream sample_docker w = (None, w)"
  "NetworkCreate sample_docker w = (Inr ''net'', w)" "NetworkConnect sample_docker n c al w = (None, w)"
  "ContainerCreate sample_docker e (t, k) = (Inr (if k = 0 then ''c0'' else ''c1''), (t, Suc k))"
  "ContainerStart sample_docker c w = (None, w)"
  "ContainerInspect sample_docker c w =
    (Inr \<lparr>ContainerName = ''/'' @ c, Ports = [''22/tcp'' \<mapsto> [''2200'']]\<rparr>, w)"
  "DialHost sample_docker c b g w = (Inr c, w)"
  by (simp_all add: sample_docker_def prepareBuildContext_def)

lemma sample_setup:
  "setupContainerEnvironment sample_docker False t =
    (Done ''net'', t\<lparr>cleanups := CloseBuild # cleanups t, events := events t @ [NetworkMade ''net'']\<rparr>)"
  by (simp add: setupContainerEnvironment_def createClient_def buildImage_def createNetwork_def bind_t_def
      must_def check_nil_def call_def return_t_def Cleanup_def emit_event_def sample_calls)

lemma sample_port: "port_loop sample_docker c 10 t = (Done ''localhost:2200'', t)"
proof -
  have ten: "10 = Suc 9" by simp
  show ?thesis
    unfolding ten port_loop.simps
    by (simp add: bind_t_def must_def call_def return_t_def sample_calls sshPortBinding_def)
qed

lemma sample_container:
  "createContainer sample_docker net () \<lparr>world = (0, 0), failed = f, skipped = s, cleanups = cs, events = es\<rparr> =
    (Done (''c0'', ''localhost:2200''),
      \<lparr>world = (0, 1), failed = f, skipped = s, cleanups = cs, events = es @ [ContainerMade ''c0'']\<rparr>)"
  "createContainer sample_docker net () \<lparr>world = (0, 1), failed = f, skipped = s, cleanups = cs, events = es\<rparr> =
    (Stopped, \<lparr>world = (12000000000, 2), failed = True, skipped = s, cleanups = cs,
      events = es @ [ContainerMade ''c1'']\<rparr>)"
  using sample_ready [unfolded numeral_2_eq_2]
  by (simp_all add: createContainer_def bind_t_def must_def must_nil_def call_def return_t_def
      emit_event_def Fatal_def wait_ready_def sample_calls sample_port
      TrimPrefix_def HasPrefix_def Let_def numeral_2_eq_2 del: port_loop.simps)


end
