(* ===== verification/Spec2Isabelle.thy ===== *)
theory Spec2Isabelle
  imports Host_Spec Group_Lifecycle Sftp_Copy Command_Run Keep_Alive Host_Vars Iago_Test
begin

text \<open>
  A verification development of the Go package iago, which runs tasks on groups of hosts over
  ssh: it reads host specifications and the OpenSSH configuration, dials the hosts (through
  shared jump hosts when asked to), runs a task on all of them concurrently, and gives the
  tasks commands, a remote file system and file transfers.

  \<^bold>\<open>The Go layer.\<close> A nil error is \<open>None\<close>; errors are the values of \<open>Go_Error.err\<close>, which
  keeps format strings with their arguments; a call that returns a value or an error has a sum
  type, \<open>Inl\<close> the error. \<open>Iago_Prelude.outcome\<close> adds a panic and a call that never returns.
  \<open>Go_Strings\<close>, \<open>Go_Path\<close>, \<open>Go_Glob\<close>, \<open>Go_Int\<close> and \<open>Go_Crypto\<close> write out what the
  source uses of the standard library: strings are byte lists, \<open>int\<close> and \<open>int64\<close> are
  integers with the wrap-around of each operation (\<open>wrap_int\<close>), file modes are 32-bit
  words, \<open>filepath.Match\<close> and SHA1 with HMAC are executable. \<open>Go_IO\<close> is for code that
  opens connections: an opaque state and a ghost trace of what was opened and closed.

  \<^bold>\<open>What is outside.\<close> The ssh, sftp, agent and ssh_config libraries, the file systems of wrfs,
  the docker client, the operating system and the callbacks of the user are parameters:
  records of functions on an opaque state. Hypotheses on them are named definitions (for
  example \<open>File_Copy.streams\<close>, \<open>File_Copy.lists\<close>) or premises, and each property with
  one has a witness on a concrete instance.

  \<^bold>\<open>Theories and sources.\<close>
  \<^item> \<open>Go_Error\<close> (src/iago.go): \<open>safeClose\<close>, \<open>wrapError\<close>, \<open>TaskError\<close>, the collector
    \<open>Errors\<close>, with \<open>errors.Is\<close>, \<open>Join\<close> and \<open>AsType\<close>.
  \<^item> \<open>Group_Run\<close>, \<open>Group_Close\<close>, \<open>Group_Options\<close> (src/iago.go): \<open>Group.Run\<close>, \<open>Collect\<close>
    and \<open>Group.Close\<close> as step relations, one step per move of a goroutine; the options and
    the group.
  \<^item> \<open>Host_Vars\<close> (src/iago.go): \<open>Expand\<close>, \<open>GetStringVar\<close>, \<open>GetIntVar\<close>.
  \<^item> \<open>Ssh_Config\<close>, \<open>Host_Spec\<close>, \<open>Known_Hosts\<close>, \<open>Client_Config\<close> (src/ssh_config.go):
    lookups, timeouts and addresses; \<open>ParseHosts\<close> and everything below it;
    \<open>knownHostAlgorithms\<close>; \<open>ClientConfig\<close> with its signers and host key callbacks.
  \<^item> \<open>Ssh_Host\<close> (src/ssh.go): \<open>newHostFromClient\<close>, \<open>fetchEnv\<close> and the methods of
    \<open>sshHost\<close>. \<open>Keep_Alive\<close>: the keepalive goroutine and its stop function.
  \<^item> \<open>Dial_Pool\<close>, \<open>Group_Dialer\<close>, \<open>Ssh_Group\<close> (src/ssh.go): the worker pool of
    \<open>dialAll\<close>, the jump hosts and the dialing of one alias, and \<open>NewSSHGroup\<close> composed of
    them. The dials of a pool run share the state, so a result holds for every schedule.
    \<open>Group_Lifecycle\<close> composes \<open>NewSSHGroup\<close> with \<open>Group.Close\<close> on the same trace.
  \<^item> \<open>Command_Run\<close> (src/cmd.go and the command methods of src/ssh.go): \<open>Shell.Apply\<close> as a
    step relation between the caller, its copying goroutines and the remote process;
    \<open>RunContext\<close>, \<open>Output\<close>, \<open>Quote\<close> and the path tests.
  \<^item> \<open>Fs_Path\<close>, \<open>File_Copy\<close> (src/fs.go): paths, permissions; uploads, downloads, the
    recursive copy, sizes and the progress reader. \<open>File_Tree\<close> states the contract of the file
    systems and what a recursive copy leaves stored. \<open>Sftp_Fs\<close> (src/sftpfs/sftpfs.go): the
    file system over an sftp client. \<open>Sftp_Copy\<close> composes the two: downloads whose source
    is that file system.
  \<^item> \<open>Iago_Test\<close> (src/iagotest/iagotest.go): the docker test groups over a test state with
    cleanups that run last one first.

  \<^bold>\<open>Interfaces.\<close> \<open>step_system\<close> and \<open>live_system\<close> (\<open>Iago_Prelude\<close>) are the contracts of
  the concurrent parts: an invariant, a decreasing weight, and no stuck state that is not
  final. \<open>Group_Run\<close>, \<open>Group_Close\<close>, \<open>Dial_Pool\<close>, \<open>Command_Run\<close> and \<open>Keep_Alive\<close>
  interpret them on their step relations and take termination, bounds on the length of runs
  and freedom from deadlock from there. \<open>recording_handler\<close> (\<open>Go_Error\<close>) is the contract
  of an error handler that keeps what it is given, interpreted on \<open>Errors\<close>;
  \<open>path_operation\<close> (\<open>Sftp_Fs\<close>) that of the calls with one path.

  \<^bold>\<open>What the lemmas show.\<close> Resources: whatever the schedule, a failed \<open>NewSSHGroup\<close> closes the
  jump, agent and session connections it opened, a successful one hands exactly the open ones
  to the group, \<open>Group.Close\<close> closes the hosts before the shared connections, and over the
  whole life of a group all of them are closed; the client that \<open>dialTarget\<close> leaks is stated
  too. Concurrency: \<open>Run\<close>, \<open>Collect\<close>, the pool,
  \<open>Shell.Apply\<close> and the keepalives end in every schedule with the result of a sequential
  run, and where they do not (a panicking handler, a standard input that must end first) that
  is stated. Parsing: host specifications, ranges, configuration values, known hosts and
  environments against declarative descriptions, with the inputs on which the code panics or
  loops. Files: the recursive copy refines a plan of actions on a finite tree and stores that
  tree at the destination, files are transferred byte for byte, downloads from different hosts do not collide and stay below
  the root of the server, paths keep their type invariant. Commands: a quoted word is read by a shell as exactly that word.

  \<^bold>\<open>Bounds and fuel.\<close> \<open>copyDir\<close> and \<open>totalSize\<close> take one unit of fuel per level of the
  tree, and the height of the tree is enough.
  The loop over a range of hosts, the loop of \<open>io.Copy\<close> and the wait for an ssh server are
  partial functions whose \<open>None\<close> is not returning, with lemmas on when they return. All
  other functions are total.

  \<^bold>\<open>Not modelled.\<close> The remaining lines of the sources are imports, the interfaces \<open>Host\<close> and
  \<open>CmdRunner\<close> (their methods are those of \<open>sshHost\<close> and \<open>sshCmd\<close>), methods that only
  forward to the ssh session (\<open>Start\<close>, \<open>StdinPipe\<close>, \<open>StdoutPipe\<close>, \<open>StderrPipe\<close>),
  log output, comments, and the tests. Contexts appear through what the calls that take them
  return. Windows paths are not modelled. Unless said otherwise a remote process is taken to
  run on when nobody reads its output.
\<close>

end
